theory Spec2Isabelle
  imports Main "HOL-Library.Sublist" "HOL-Library.Multiset"
begin

section \<open>Data model of the BTC data source (packages/btc/src/query/source.ts)\<close>

text \<open>
  JavaScript numbers are modelled as \<open>int\<close>: block heights, output indices and satoshi
  values are integers far below \<open>2^53\<close>, where the arithmetic of the source is exact.
  Optional properties (\<open>x?: T\<close>) are \<open>T option\<close>, \<open>undefined\<close> is \<open>None\<close>.
\<close>

subsection \<open>Records of the assets service\<close>

record BtcApiStatus =
  confirmed :: bool
  block_height :: int
  block_hash :: string
  block_time :: int

text \<open>One entry of \<open>BtcApiTransaction.vout\<close>.\<close>

record BtcApiTransactionVout =
  scriptpubkey :: string
  scriptpubkey_asm :: string
  scriptpubkey_type :: string
  scriptpubkey_address :: string
  "value" :: int

text \<open>
  The transaction as the service returns it. Only the fields that \<open>DataSource\<close> reads are
  kept (\<open>version\<close>, \<open>locktime\<close>, \<open>vin\<close>, \<open>weight\<close>, \<open>size\<close> and \<open>fee\<close> are never read).
\<close>

record BtcApiTransaction =
  txid :: string
  vout :: "BtcApiTransactionVout list"
  status :: BtcApiStatus

record BtcApiUtxo =
  txid :: string
  vout :: int
  "value" :: int
  status :: BtcApiStatus

record BtcApiUtxoParams =
  only_confirmed :: "bool option"
  min_satoshi :: "int option"
  no_cache :: "bool option"

subsection \<open>Outputs and UTXOs (transaction/utxo.ts)\<close>

text \<open>
  \<open>Utxo\<close> extends \<open>Output\<close>, and an entry of \<open>excludeUtxos\<close> has the two fields
  \<open>txid\<close> and \<open>vout\<close> only; record extension keeps the field names of the source.
\<close>

record outpoint =
  txid :: string
  vout :: int

text \<open>The argument of \<open>collectSatoshi\<close>.\<close>

record props =
  address :: string
  targetAmount :: int
  minUtxoSatoshi :: "int option"
  allowInsufficient :: "bool option"
  onlyNonRgbppUtxos :: "bool option"
  onlyConfirmedUtxos :: "bool option"
  noAssetsApiCache :: "bool option"
  internalCacheKey :: "string option"
  excludeUtxos :: "outpoint list option"

record Output = outpoint +
  "value" :: int
  scriptPk :: string

record 't Utxo = Output +
  address :: string
  addressType :: 't

text \<open>What \<open>getOutput\<close> resolves to when it finds the output: an object without the
  property \<open>address\<close> (an \<open>Output\<close>) or one with it (a \<open>Utxo\<close>).\<close>

datatype 't OutputOrUtxo = AsOutput Output | AsUtxo "'t Utxo"

text \<open>What \<open>collectSatoshi\<close> resolves to.\<close>

record 't collected =
  utxos :: "'t Utxo list"
  satoshi :: int
  exceedSatoshi :: int

subsection \<open>Errors\<close>

text \<open>
  \<open>TxBuildError.withComment (code, comment)\<close> is \<open>TxBuildError code comment\<close>. The two
  comment templates of the source, \<open>hash: ${hash}, index: ${index}\<close> and
  \<open>expected: ${targetAmount}, actual: ${collectedAmount}\<close>, keep the values they
  interpolate. \<open>TypeError\<close> is what the runtime throws on a property read of
  \<open>undefined\<close>. \<open>Thrown x\<close> is any value thrown by the assets service or by an imported
  helper; it propagates unchanged.
\<close>

datatype ErrorCodes = INSUFFICIENT_UTXO | UNSPENDABLE_OUTPUT | UNCONFIRMED_UTXO

datatype comment = HashIndex string int | ExpectedActual int int

datatype 'x error = TxBuildError ErrorCodes comment | TypeError | Thrown 'x

subsection \<open>The assets service and the imported helpers\<close>

text \<open>
  The service is remote: each call reads and may change a world \<open>'w\<close> that the data source
  does not control, and either throws (\<open>Inl\<close>) or resolves (\<open>Inr\<close>).
  \<open>getBtcTransaction\<close> resolves to \<open>None\<close> for a falsy value (no transaction);
  \<open>getRgbppAssetsByBtcUtxo\<close> resolves to \<open>None\<close> for a value that is not an array.
\<close>

record ('w, 'x, 'c) BtcAssetsApi =
  getBtcTransaction :: "string \<Rightarrow> 'w \<Rightarrow> ('x + BtcApiTransaction option) \<times> 'w"
  getBtcUtxos :: "string \<Rightarrow> BtcApiUtxoParams option \<Rightarrow> 'w \<Rightarrow> ('x + BtcApiUtxo list) \<times> 'w"
  getRgbppAssetsByBtcUtxo :: "string \<Rightarrow> int \<Rightarrow> 'w \<Rightarrow> ('x + 'c list option) \<times> 'w"

text \<open>
  The functions that source.ts imports from files outside this development are
  parameters. \<open>isOpReturnScriptPubkey\<close> is taken on the hex string, that is composed with
  \<open>Buffer.from (_, 'hex')\<close>. Each of them but \<open>remove0x\<close> may throw.
\<close>

record ('x, 'n, 't) helpers =
  remove0x :: "string \<Rightarrow> string"
  isOpReturnScriptPubkey :: "string \<Rightarrow> 'x + bool"
  getAddressType :: "string \<Rightarrow> 'x + 't"
  addressToScriptPublicKeyHex :: "string \<Rightarrow> 'n \<Rightarrow> 'x + string"

text \<open>The immutable fields of the class \<open>DataSource\<close>; its cache is part of the state.\<close>

record ('w, 'x, 'c, 'n) DataSource =
  service :: "('w, 'x, 'c) BtcAssetsApi"
  networkType :: 'n

text \<open>
  The remote side as the data source sees it: the world of the service, and a log of the
  calls made so far (a ghost field, written by the three wrappers below only).
\<close>

datatype remote_call =
  GetBtcTransaction string
  | GetBtcUtxos string "BtcApiUtxoParams option"
  | GetRgbppAssetsByBtcUtxo string int

record 'w remote =
  world :: 'w
  calls :: "remote_call list"

definition callGetBtcTransaction ::
  "('w, 'x, 'c, 'n) DataSource \<Rightarrow> string \<Rightarrow> 'w remote \<Rightarrow> ('x + BtcApiTransaction option) \<times> 'w remote" where
  "callGetBtcTransaction ds txId r =
     (case getBtcTransaction (service ds) txId (world r) of
        (res, w') \<Rightarrow> (res, \<lparr>world = w', calls = calls r @ [GetBtcTransaction txId]\<rparr>))"

definition callGetBtcUtxos ::
  "('w, 'x, 'c, 'n) DataSource \<Rightarrow> string \<Rightarrow> BtcApiUtxoParams option \<Rightarrow> 'w remote
     \<Rightarrow> ('x + BtcApiUtxo list) \<times> 'w remote" where
  "callGetBtcUtxos ds addr params r =
     (case getBtcUtxos (service ds) addr params (world r) of
        (res, w') \<Rightarrow> (res, \<lparr>world = w', calls = calls r @ [GetBtcUtxos addr params]\<rparr>))"

definition callGetRgbppAssetsByBtcUtxo ::
  "('w, 'x, 'c, 'n) DataSource \<Rightarrow> string \<Rightarrow> int \<Rightarrow> 'w remote \<Rightarrow> ('x + 'c list option) \<times> 'w remote" where
  "callGetRgbppAssetsByBtcUtxo ds btcTxId v r =
     (case getRgbppAssetsByBtcUtxo (service ds) btcTxId v (world r) of
        (res, w') \<Rightarrow> (res, \<lparr>world = w', calls = calls r @ [GetRgbppAssetsByBtcUtxo btcTxId v]\<rparr>))"

section \<open>Output lookup\<close>

text \<open>\<open>xs[i]\<close> of JavaScript: \<open>undefined\<close> outside the array.\<close>

definition at_index :: "'a list \<Rightarrow> int \<Rightarrow> 'a option" where
  "at_index xs i = (if 0 \<le> i \<and> i < int (length xs) then Some (xs ! nat i) else None)"

text \<open>An optional boolean used as a condition: \<open>undefined\<close> is falsy.\<close>

definition truthy :: "bool option \<Rightarrow> bool" where
  "truthy b = (b = Some True)"

definition getOutput ::
  "('x, 'n, 't) helpers \<Rightarrow> ('w, 'x, 'c, 'n) DataSource \<Rightarrow> string \<Rightarrow> int \<Rightarrow> bool option \<Rightarrow> 'w remote
     \<Rightarrow> ('x error + 't OutputOrUtxo option) \<times> 'w remote" where
  "getOutput h ds hash index requireConfirmed r =
     (let txId = remove0x h hash in
      case callGetBtcTransaction ds txId r of
        (Inl x, r1) \<Rightarrow> (Inl (Thrown x), r1)
      | (Inr None, r1) \<Rightarrow> (Inr None, r1)
      | (Inr (Some tx), r1) \<Rightarrow>
          if truthy requireConfirmed \<and> \<not> confirmed (BtcApiTransaction.status tx)
          then (Inl (TxBuildError UNCONFIRMED_UTXO (HashIndex hash index)), r1)
          else
            (case at_index (BtcApiTransaction.vout tx) index of
               None \<Rightarrow> (Inr None, r1)
             | Some vo \<Rightarrow>
                 (case isOpReturnScriptPubkey h (scriptpubkey vo) of
                    Inl x \<Rightarrow> (Inl (Thrown x), r1)
                  | Inr True \<Rightarrow>
                      (Inr (Some (AsOutput
                         \<lparr>txid = txId, vout = index,
                          value = BtcApiTransactionVout.value vo,
                          scriptPk = scriptpubkey vo\<rparr>)), r1)
                  | Inr False \<Rightarrow>
                      (case getAddressType h (scriptpubkey_address vo) of
                         Inl x \<Rightarrow> (Inl (Thrown x), r1)
                       | Inr t \<Rightarrow>
                           (Inr (Some (AsUtxo
                              \<lparr>txid = txId, vout = index,
                               value = BtcApiTransactionVout.value vo,
                               scriptPk = scriptpubkey vo,
                               address = scriptpubkey_address vo,
                               addressType = t\<rparr>)), r1)))))"

definition getUtxo ::
  "('x, 'n, 't) helpers \<Rightarrow> ('w, 'x, 'c, 'n) DataSource \<Rightarrow> string \<Rightarrow> int \<Rightarrow> bool option \<Rightarrow> 'w remote
     \<Rightarrow> ('x error + 't Utxo option) \<times> 'w remote" where
  "getUtxo h ds hash index requireConfirmed r =
     (case getOutput h ds hash index requireConfirmed r of
        (Inl e, r1) \<Rightarrow> (Inl e, r1)
      | (Inr None, r1) \<Rightarrow> (Inr None, r1)
      | (Inr (Some (AsOutput out)), r1) \<Rightarrow>
          (Inl (TxBuildError UNSPENDABLE_OUTPUT (HashIndex hash index)), r1)
      | (Inr (Some (AsUtxo u)), r1) \<Rightarrow> (Inr (Some u), r1))"

text \<open>\<open>tx.status\<close> is read with no guard: on a falsy \<open>tx\<close> the read throws.\<close>

definition isTransactionConfirmed ::
  "('x, 'n, 't) helpers \<Rightarrow> ('w, 'x, 'c, 'n) DataSource \<Rightarrow> string \<Rightarrow> 'w remote
     \<Rightarrow> ('x error + bool) \<times> 'w remote" where
  "isTransactionConfirmed h ds hash r =
     (case callGetBtcTransaction ds (remove0x h hash) r of
        (Inl x, r1) \<Rightarrow> (Inl (Thrown x), r1)
      | (Inr None, r1) \<Rightarrow> (Inl TypeError, r1)
      | (Inr (Some tx), r1) \<Rightarrow> (Inr (confirmed (BtcApiTransaction.status tx)), r1))"


section \<open>UTXO listing\<close>

text \<open>The comparator that \<open>getUtxos\<close> passes to \<open>sort\<close>.\<close>

definition compareFn :: "BtcApiUtxo \<Rightarrow> BtcApiUtxo \<Rightarrow> int" where
  "compareFn a b =
     (let aBlockHeight = block_height (BtcApiUtxo.status a);
          bBlockHeight = block_height (BtcApiUtxo.status b)
      in if aBlockHeight \<noteq> bBlockHeight then aBlockHeight - bBlockHeight
         else BtcApiUtxo.vout a - BtcApiUtxo.vout b)"

text \<open>
  \<open>Array.prototype.sort\<close> is stable (ECMAScript 2019): \<open>a\<close> comes before \<open>b\<close> when the
  comparator is negative, and elements that compare as equal keep their order. It is
  modelled by insertion from the right, where an element goes in front of the first
  element it does not exceed.
\<close>

fun insertBy :: "('a \<Rightarrow> 'a \<Rightarrow> int) \<Rightarrow> 'a \<Rightarrow> 'a list \<Rightarrow> 'a list" where
  "insertBy cmp x [] = [x]"
| "insertBy cmp x (y # ys) = (if cmp x y \<le> 0 then x # y # ys else y # insertBy cmp x ys)"

definition sortBy :: "('a \<Rightarrow> 'a \<Rightarrow> int) \<Rightarrow> 'a list \<Rightarrow> 'a list" where
  "sortBy cmp xs = foldr (insertBy cmp) xs []"

text \<open>The callback of \<open>map\<close> in \<open>getUtxos\<close>; \<open>getAddressType\<close> is called for each row.\<close>

fun rowsToUtxos ::
  "('x, 'n, 't) helpers \<Rightarrow> string \<Rightarrow> string \<Rightarrow> BtcApiUtxo list \<Rightarrow> 'x error + 't Utxo list" where
  "rowsToUtxos h addr spk [] = Inr []"
| "rowsToUtxos h addr spk (row # rows) =
     (case getAddressType h addr of
        Inl x \<Rightarrow> Inl (Thrown x)
      | Inr t \<Rightarrow>
          (case rowsToUtxos h addr spk rows of
             Inl e \<Rightarrow> Inl e
           | Inr us \<Rightarrow>
               Inr (\<lparr>txid = BtcApiUtxo.txid row, vout = BtcApiUtxo.vout row,
                     value = BtcApiUtxo.value row, scriptPk = spk,
                     address = addr, addressType = t\<rparr> # us)))"

definition getUtxos ::
  "('x, 'n, 't) helpers \<Rightarrow> ('w, 'x, 'c, 'n) DataSource \<Rightarrow> string \<Rightarrow> BtcApiUtxoParams option
     \<Rightarrow> 'w remote \<Rightarrow> ('x error + 't Utxo list) \<times> 'w remote" where
  "getUtxos h ds addr params r =
     (case callGetBtcUtxos ds addr params r of
        (Inl x, r1) \<Rightarrow> (Inl (Thrown x), r1)
      | (Inr rows, r1) \<Rightarrow>
          (case addressToScriptPublicKeyHex h addr (networkType ds) of
             Inl x \<Rightarrow> (Inl (Thrown x), r1)
           | Inr spk \<Rightarrow> (rowsToUtxos h addr spk (sortBy compareFn rows), r1)))"

section \<open>The cache of a data source\<close>

text \<open>
  The mutable state of a \<open>DataSource\<close>: the two tables of its \<open>DataCache\<close> and the
  remote side.
\<close>

record ('w, 't) state =
  cachedUtxos :: "string \<rightharpoonup> 't Utxo list"
  cachedHasRgbppAssets :: "string \<rightharpoonup> bool"
  remote :: "'w remote"

text \<open>
  Modelled from the spec: the class \<open>DataCache\<close> (query/cache.ts) is not part of the
  sources at hand. The contract of section 4.5 is followed: with no key the producer
  always runs and nothing is stored; with a key seen before the stored value is returned
  and the producer does not run; with an unseen key the producer runs once and its value is
  stored, unless it fails: a failure is not stored.
\<close>

definition optionalCacheUtxos ::
  "string option \<Rightarrow> ('w remote \<Rightarrow> ('x error + 't Utxo list) \<times> 'w remote) \<Rightarrow> ('w, 't) state
     \<Rightarrow> ('x error + 't Utxo list) \<times> ('w, 't) state" where
  "optionalCacheUtxos key getter st =
     (case key of
        None \<Rightarrow> (case getter (remote st) of (res, r1) \<Rightarrow> (res, st\<lparr>remote := r1\<rparr>))
      | Some k \<Rightarrow>
          (case cachedUtxos st k of
             Some v \<Rightarrow> (Inr v, st)
           | None \<Rightarrow>
               (case getter (remote st) of
                  (Inl e, r1) \<Rightarrow> (Inl e, st\<lparr>remote := r1\<rparr>)
                | (Inr v, r1) \<Rightarrow>
                    (Inr v, st\<lparr>remote := r1, cachedUtxos := (cachedUtxos st)(k \<mapsto> v)\<rparr>))))"

text \<open>Modelled from the spec: the same contract, for the table of asset bindings.\<close>

definition optionalCacheHasRgbppAssets ::
  "string option \<Rightarrow> ('w remote \<Rightarrow> ('x error + bool) \<times> 'w remote) \<Rightarrow> ('w, 't) state
     \<Rightarrow> ('x error + bool) \<times> ('w, 't) state" where
  "optionalCacheHasRgbppAssets key getter st =
     (case key of
        None \<Rightarrow> (case getter (remote st) of (res, r1) \<Rightarrow> (res, st\<lparr>remote := r1\<rparr>))
      | Some k \<Rightarrow>
          (case cachedHasRgbppAssets st k of
             Some v \<Rightarrow> (Inr v, st)
           | None \<Rightarrow>
               (case getter (remote st) of
                  (Inl e, r1) \<Rightarrow> (Inl e, st\<lparr>remote := r1\<rparr>)
                | (Inr v, r1) \<Rightarrow>
                    (Inr v, st\<lparr>remote := r1,
                               cachedHasRgbppAssets := (cachedHasRgbppAssets st)(k \<mapsto> v)\<rparr>))))"

section \<open>Coin selection\<close>

text \<open>A number inside a template literal: the decimal digits of an integer.\<close>

fun natToString :: "nat \<Rightarrow> string" where
  "natToString n =
     (if n < 10 then [''0123456789'' ! n]
      else natToString (n div 10) @ [''0123456789'' ! (n mod 10)])"

declare natToString.simps [simp del]

definition numberToString :: "int \<Rightarrow> string" where
  "numberToString i = (if i < 0 then CHR ''-'' # natToString (nat (- i)) else natToString (nat i))"

text \<open>The key \<open>${utxo.txid}:${utxo.vout}\<close> of the second cache.\<close>

definition hasRgbppAssetsKey :: "'a outpoint_scheme \<Rightarrow> string" where
  "hasRgbppAssetsKey utxo = txid utxo @ '':'' @ numberToString (vout utxo)"

text \<open>The getter passed to the second cache.\<close>

definition hasRgbppAssetsGetter ::
  "('w, 'x, 'c, 'n) DataSource \<Rightarrow> 't Utxo \<Rightarrow> 'w remote \<Rightarrow> ('x error + bool) \<times> 'w remote" where
  "hasRgbppAssetsGetter ds utxo r =
     (case callGetRgbppAssetsByBtcUtxo ds (txid utxo) (vout utxo) r of
        (Inl x, r1) \<Rightarrow> (Inl (Thrown x), r1)
      | (Inr ckbRgbppAssets, r1) \<Rightarrow>
          (Inr (case ckbRgbppAssets of None \<Rightarrow> False | Some cells \<Rightarrow> length cells > 0), r1))"

text \<open>
  The \<open>for\<close> loop of \<open>collectSatoshi\<close> over the candidates that remain, with the local
  variables \<open>collected\<close> and \<open>collectedAmount\<close>.
\<close>

fun collectLoop ::
  "('w, 'x, 'c, 'n) DataSource \<Rightarrow> int \<Rightarrow> outpoint list \<Rightarrow> bool option
     \<Rightarrow> 't Utxo list \<Rightarrow> 't Utxo list \<Rightarrow> int \<Rightarrow> ('w, 't) state
     \<Rightarrow> ('x error + 't Utxo list \<times> int) \<times> ('w, 't) state" where
  "collectLoop ds target excluding onlyNonRgbpp [] collected collectedAmount st =
     (Inr (collected, collectedAmount), st)"
| "collectLoop ds target excluding onlyNonRgbpp (utxo # rest) collected collectedAmount st =
     (if collectedAmount \<ge> target then (Inr (collected, collectedAmount), st)
      else if length excluding > 0
              \<and> find (\<lambda>exclude. txid exclude = txid utxo \<and> vout exclude = vout utxo) excluding \<noteq> None
      then collectLoop ds target excluding onlyNonRgbpp rest collected collectedAmount st
      else if truthy onlyNonRgbpp
      then
        (case optionalCacheHasRgbppAssets (Some (hasRgbppAssetsKey utxo))
                (hasRgbppAssetsGetter ds utxo) st of
           (Inl e, st1) \<Rightarrow> (Inl e, st1)
         | (Inr True, st1) \<Rightarrow>
             collectLoop ds target excluding onlyNonRgbpp rest collected collectedAmount st1
         | (Inr False, st1) \<Rightarrow>
             collectLoop ds target excluding onlyNonRgbpp rest
               (collected @ [utxo]) (collectedAmount + value utxo) st1)
      else
        collectLoop ds target excluding onlyNonRgbpp rest
          (collected @ [utxo]) (collectedAmount + value utxo) st)"

text \<open>Lines 131 to 169: the candidates, through the first cache, and the loop over them.\<close>

definition collectCandidates ::
  "('x, 'n, 't) helpers \<Rightarrow> ('w, 'x, 'c, 'n) DataSource \<Rightarrow> props \<Rightarrow> ('w, 't) state
     \<Rightarrow> ('x error + 't Utxo list) \<times> ('w, 't) state" where
  "collectCandidates h ds p st =
     optionalCacheUtxos (internalCacheKey p)
       (getUtxos h ds (props.address p)
          (Some \<lparr>only_confirmed = onlyConfirmedUtxos p,
                 min_satoshi = minUtxoSatoshi p,
                 no_cache = noAssetsApiCache p\<rparr>))
       st"

definition accumulate ::
  "('x, 'n, 't) helpers \<Rightarrow> ('w, 'x, 'c, 'n) DataSource \<Rightarrow> props \<Rightarrow> ('w, 't) state
     \<Rightarrow> ('x error + 't Utxo list \<times> int) \<times> ('w, 't) state" where
  "accumulate h ds p st =
     (case collectCandidates h ds p st of
        (Inl e, st1) \<Rightarrow> (Inl e, st1)
      | (Inr candidates, st1) \<Rightarrow>
          collectLoop ds (targetAmount p)
            (case excludeUtxos p of None \<Rightarrow> [] | Some es \<Rightarrow> es)
            (onlyNonRgbppUtxos p) candidates [] 0 st1)"

definition collectSatoshi ::
  "('x, 'n, 't) helpers \<Rightarrow> ('w, 'x, 'c, 'n) DataSource \<Rightarrow> props \<Rightarrow> ('w, 't) state
     \<Rightarrow> ('x error + 't collected) \<times> ('w, 't) state" where
  "collectSatoshi h ds p st =
     (case accumulate h ds p st of
        (Inl e, st2) \<Rightarrow> (Inl e, st2)
      | (Inr (collected, collectedAmount), st2) \<Rightarrow>
          if \<not> (case allowInsufficient p of None \<Rightarrow> False | Some b \<Rightarrow> b)
             \<and> collectedAmount < targetAmount p
          then (Inl (TxBuildError INSUFFICIENT_UTXO
                       (ExpectedActual (targetAmount p) collectedAmount)), st2)
          else (Inr \<lparr>utxos = collected, satoshi = collectedAmount,
                     exceedSatoshi = collectedAmount - targetAmount p\<rparr>, st2))"

section \<open>Calls that overlap\<close>

text \<open>
  An \<open>async\<close> function runs without interruption up to an \<open>await\<close> on a promise that is
  still pending, and goes on when that promise settles; nothing else runs in between.
  The first \<open>await\<close> of \<open>collectSatoshi\<close> is on the candidates. The configurations below
  follow several calls on one data source event by event up to that point, and take what
  a call does once it has its candidates, \<open>selectFrom\<close>, as one step.
\<close>

subsection \<open>The source functions, split at the first \<open>await\<close>\<close>

text \<open>
  The parameters that \<open>collectSatoshi\<close> passes to \<open>getUtxos\<close>.
\<close>

definition listingParams :: "props \<Rightarrow> BtcApiUtxoParams option" where
  "listingParams p =
     Some \<lparr>only_confirmed = onlyConfirmedUtxos p,
           min_satoshi = minUtxoSatoshi p,
           no_cache = noAssetsApiCache p\<rparr>"

text \<open>
  \<open>getUtxos\<close> up to its \<open>await\<close>, where the request is sent, and from there on, when the
  service answers: \<open>getUtxos\<close> is \<open>resumeGetUtxos\<close> after \<open>sendGetBtcUtxos\<close>
  (\<open>getUtxos_send_resume\<close>).
\<close>

definition sendGetBtcUtxos :: "string \<Rightarrow> BtcApiUtxoParams option \<Rightarrow> 'w remote \<Rightarrow> 'w remote" where
  "sendGetBtcUtxos addr params r = r\<lparr>calls := calls r @ [GetBtcUtxos addr params]\<rparr>"

definition resumeGetUtxos ::
  "('x, 'n, 't) helpers \<Rightarrow> ('w, 'x, 'c, 'n) DataSource \<Rightarrow> string \<Rightarrow> BtcApiUtxoParams option
     \<Rightarrow> 'w remote \<Rightarrow> ('x error + 't Utxo list) \<times> 'w remote" where
  "resumeGetUtxos h ds addr params r =
     (case getBtcUtxos (service ds) addr params (world r) of
        (Inl x, w') \<Rightarrow> (Inl (Thrown x), r\<lparr>world := w'\<rparr>)
      | (Inr rows, w') \<Rightarrow>
          (case addressToScriptPublicKeyHex h addr (networkType ds) of
             Inl x \<Rightarrow> (Inl (Thrown x), r\<lparr>world := w'\<rparr>)
           | Inr spk \<Rightarrow> (rowsToUtxos h addr spk (sortBy compareFn rows), r\<lparr>world := w'\<rparr>)))"

text \<open>
  Lines 141 to 182 of \<open>collectSatoshi\<close>: the loop and the final check, on candidates that
  are given (\<open>collectSatoshi_selectFrom\<close>).
\<close>

definition selectFrom ::
  "('w, 'x, 'c, 'n) DataSource \<Rightarrow> props \<Rightarrow> 't Utxo list \<Rightarrow> ('w, 't) state
     \<Rightarrow> ('x error + 't collected) \<times> ('w, 't) state" where
  "selectFrom ds p candidates st =
     (case collectLoop ds (targetAmount p)
             (case excludeUtxos p of None \<Rightarrow> [] | Some es \<Rightarrow> es)
             (onlyNonRgbppUtxos p) candidates [] 0 st of
        (Inl e, st2) \<Rightarrow> (Inl e, st2)
      | (Inr (collected, collectedAmount), st2) \<Rightarrow>
          if \<not> (case allowInsufficient p of None \<Rightarrow> False | Some b \<Rightarrow> b)
             \<and> collectedAmount < targetAmount p
          then (Inl (TxBuildError INSUFFICIENT_UTXO
                       (ExpectedActual (targetAmount p) collectedAmount)), st2)
          else (Inr \<lparr>utxos = collected, satoshi = collectedAmount,
                     exceedSatoshi = collectedAmount - targetAmount p\<rparr>, st2))"

subsection \<open>Tasks, configurations and events\<close>

text \<open>
  A call of \<open>collectSatoshi\<close>: not started; waiting for the listing it has requested
  itself (no cache key); waiting for the fetch of its cache key; holding its candidates;
  or settled. \<open>Returned\<close> keeps the candidates the call has received, if any, next to
  its result.
\<close>

datatype ('x, 't) task =
  Called props
  | AwaitingOwn props
  | AwaitingShared props string
  | Selecting props "'t Utxo list"
  | Returned "'t Utxo list option" "'x error + 't collected"

text \<open>
  The calls, the fetches in flight (key, and the request of the caller that started
  the fetch), the state of the data source, and a count of the fetches that have failed
  (a ghost field).
\<close>

record ('w, 'x, 't) conf =
  tasks :: "('x, 't) task list"
  inFlight :: "string \<rightharpoonup> string \<times> BtcApiUtxoParams option"
  shared :: "('w, 't) state"
  failedFetches :: nat

text \<open>
  What can happen next: call \<open>i\<close> starts, the fetch for a key settles, the listing of
  call \<open>i\<close> settles, call \<open>i\<close> runs its selection. An event that is not enabled changes
  nothing. A schedule is a list of events; the calls are sequential when every call
  returns before the next one starts, and overlap otherwise.
\<close>

datatype event = Start nat | Settle string | SettleOwn nat | Finish nat

definition sendListing :: "props \<Rightarrow> ('w, 't) state \<Rightarrow> ('w, 't) state" where
  "sendListing p st = st\<lparr>remote := sendGetBtcUtxos (props.address p) (listingParams p) (remote st)\<rparr>"

text \<open>
  Modelled from the spec: \<open>DataCache\<close> (query/cache.ts) is not part of the sources at
  hand. \<open>start\<close> and \<open>settle\<close> follow the single-flight contract of sections 4.5 and 5:
  with no key the caller fetches for itself; a key that is stored is answered from the
  store; a key that is being fetched makes the caller wait for that fetch; an unseen key
  starts one fetch. When the fetch settles, a value is stored and handed to every caller
  that waits for the key; a failure is handed to them too and is not stored.
\<close>

definition start :: "nat \<Rightarrow> props \<Rightarrow> ('w, 'x, 't) conf \<Rightarrow> ('w, 'x, 't) conf" where
  "start i p c =
     (case internalCacheKey p of
        None \<Rightarrow> c\<lparr>tasks := (tasks c)[i := AwaitingOwn p], shared := sendListing p (shared c)\<rparr>
      | Some k \<Rightarrow>
          (case cachedUtxos (shared c) k of
             Some v \<Rightarrow> c\<lparr>tasks := (tasks c)[i := Selecting p v]\<rparr>
           | None \<Rightarrow>
               (case inFlight c k of
                  Some request \<Rightarrow> c\<lparr>tasks := (tasks c)[i := AwaitingShared p k]\<rparr>
                | None \<Rightarrow>
                    c\<lparr>tasks := (tasks c)[i := AwaitingShared p k],
                      inFlight := (inFlight c)(k \<mapsto> (props.address p, listingParams p)),
                      shared := sendListing p (shared c)\<rparr>)))"

definition deliver :: "string \<Rightarrow> 'x error + 't Utxo list \<Rightarrow> ('x, 't) task \<Rightarrow> ('x, 't) task" where
  "deliver k outcome t =
     (case t of
        AwaitingShared p k' \<Rightarrow>
          (if k' = k
           then (case outcome of Inl e \<Rightarrow> Returned None (Inl e) | Inr v \<Rightarrow> Selecting p v)
           else t)
      | _ \<Rightarrow> t)"

definition settle ::
  "('x, 'n, 't) helpers \<Rightarrow> ('w, 'x, 'c, 'n) DataSource \<Rightarrow> string \<Rightarrow> ('w, 'x, 't) conf
     \<Rightarrow> ('w, 'x, 't) conf" where
  "settle h ds k c =
     (case inFlight c k of
        None \<Rightarrow> c
      | Some (addr, params) \<Rightarrow>
          (case resumeGetUtxos h ds addr params (remote (shared c)) of
             (Inl e, r1) \<Rightarrow>
               c\<lparr>tasks := map (deliver k (Inl e)) (tasks c),
                 inFlight := (inFlight c)(k := None),
                 shared := (shared c)\<lparr>remote := r1\<rparr>,
                 failedFetches := Suc (failedFetches c)\<rparr>
           | (Inr v, r1) \<Rightarrow>
               c\<lparr>tasks := map (deliver k (Inr v)) (tasks c),
                 inFlight := (inFlight c)(k := None),
                 shared := (shared c)\<lparr>remote := r1, cachedUtxos := (cachedUtxos (shared c))(k \<mapsto> v)\<rparr>\<rparr>))"

definition settleOwn ::
  "('x, 'n, 't) helpers \<Rightarrow> ('w, 'x, 'c, 'n) DataSource \<Rightarrow> nat \<Rightarrow> props \<Rightarrow> ('w, 'x, 't) conf
     \<Rightarrow> ('w, 'x, 't) conf" where
  "settleOwn h ds i p c =
     (case resumeGetUtxos h ds (props.address p) (listingParams p) (remote (shared c)) of
        (Inl e, r1) \<Rightarrow>
          c\<lparr>tasks := (tasks c)[i := Returned None (Inl e)], shared := (shared c)\<lparr>remote := r1\<rparr>,
            failedFetches := Suc (failedFetches c)\<rparr>
      | (Inr v, r1) \<Rightarrow>
          c\<lparr>tasks := (tasks c)[i := Selecting p v], shared := (shared c)\<lparr>remote := r1\<rparr>\<rparr>)"

definition finish ::
  "('w, 'x, 'c, 'n) DataSource \<Rightarrow> nat \<Rightarrow> props \<Rightarrow> 't Utxo list \<Rightarrow> ('w, 'x, 't) conf
     \<Rightarrow> ('w, 'x, 't) conf" where
  "finish ds i p v c =
     (case selectFrom ds p v (shared c) of
        (res, st') \<Rightarrow> c\<lparr>tasks := (tasks c)[i := Returned (Some v) res], shared := st'\<rparr>)"

fun step ::
  "('x, 'n, 't) helpers \<Rightarrow> ('w, 'x, 'c, 'n) DataSource \<Rightarrow> event \<Rightarrow> ('w, 'x, 't) conf
     \<Rightarrow> ('w, 'x, 't) conf" where
  "step h ds (Start i) c =
     (if i < length (tasks c)
      then (case tasks c ! i of Called p \<Rightarrow> start i p c | _ \<Rightarrow> c)
      else c)"
| "step h ds (Settle k) c = settle h ds k c"
| "step h ds (SettleOwn i) c =
     (if i < length (tasks c)
      then (case tasks c ! i of AwaitingOwn p \<Rightarrow> settleOwn h ds i p c | _ \<Rightarrow> c)
      else c)"
| "step h ds (Finish i) c =
     (if i < length (tasks c)
      then (case tasks c ! i of Selecting p v \<Rightarrow> finish ds i p v c | _ \<Rightarrow> c)
      else c)"

fun run ::
  "('x, 'n, 't) helpers \<Rightarrow> ('w, 'x, 'c, 'n) DataSource \<Rightarrow> event list \<Rightarrow> ('w, 'x, 't) conf
     \<Rightarrow> ('w, 'x, 't) conf" where
  "run h ds [] c = c"
| "run h ds (e # es) c = run h ds es (step h ds e c)"

section \<open>Notions used to state the properties\<close>

text \<open>
  The definitions of this section are not part of the program. They say, in the words of
  the specification, what the properties below are about.
\<close>

subsection \<open>The order of the listing\<close>

text \<open>One row as \<open>getUtxos\<close> maps it, once the script and the type of address are known.\<close>

definition rowToUtxo :: "string \<Rightarrow> string \<Rightarrow> 't \<Rightarrow> BtcApiUtxo \<Rightarrow> 't Utxo" where
  "rowToUtxo addr spk t row =
     \<lparr>txid = BtcApiUtxo.txid row, vout = BtcApiUtxo.vout row,
      value = BtcApiUtxo.value row, scriptPk = spk,
      address = addr, addressType = t\<rparr>"

text \<open>
  Ascending by (block height, vout): the height decides, and \<open>vout\<close> decides between
  rows of the same height. \<open>sameKeys\<close> selects the rows that agree on both keys.
\<close>

definition rowBefore :: "BtcApiUtxo \<Rightarrow> BtcApiUtxo \<Rightarrow> bool" where
  "rowBefore a b \<longleftrightarrow>
     block_height (BtcApiUtxo.status a) < block_height (BtcApiUtxo.status b)
     \<or> (block_height (BtcApiUtxo.status a) = block_height (BtcApiUtxo.status b)
        \<and> BtcApiUtxo.vout a \<le> BtcApiUtxo.vout b)"

definition sameKeys :: "int \<Rightarrow> int \<Rightarrow> BtcApiUtxo \<Rightarrow> bool" where
  "sameKeys hgt v row \<longleftrightarrow> block_height (BtcApiUtxo.status row) = hgt \<and> BtcApiUtxo.vout row = v"

subsection \<open>The filters and the target of the selection\<close>

text \<open>
  A candidate is excluded when an entry of the exclusion list has exactly its \<open>txid\<close>
  and its \<open>vout\<close>.
\<close>

definition isExcluded :: "outpoint list \<Rightarrow> 'a outpoint_scheme \<Rightarrow> bool" where
  "isExcluded excluding utxo \<longleftrightarrow> (\<exists>exclude\<in>set excluding. txid exclude = txid utxo \<and> vout exclude = vout utxo)"

text \<open>
  A candidate survives the filters when it is not excluded and, if asset exclusion is
  requested, the lookup of its asset bindings has not resolved to "has assets". The
  lookups are read from the cache of the state in which the call ends: the loop enters
  every lookup it resolves there, and an entry never changes.
\<close>

definition keptBy :: "outpoint list \<Rightarrow> bool option \<Rightarrow> ('w, 't) state \<Rightarrow> 't Utxo \<Rightarrow> bool" where
  "keptBy excluding onlyNonRgbpp st utxo \<longleftrightarrow>
     \<not> isExcluded excluding utxo
     \<and> \<not> (truthy onlyNonRgbpp \<and> cachedHasRgbppAssets st (hasRgbppAssetsKey utxo) = Some True)"

definition selectable :: "props \<Rightarrow> ('w, 't) state \<Rightarrow> 't Utxo \<Rightarrow> bool" where
  "selectable p st =
     keptBy (case excludeUtxos p of None \<Rightarrow> [] | Some es \<Rightarrow> es) (onlyNonRgbppUtxos p) st"

text \<open>
  The cumulative value of a list of outputs, and the greedy prefix: the elements taken
  one by one for as long as the value accumulated so far is below the target.
\<close>

definition totalValue :: "'t Utxo list \<Rightarrow> int" where
  "totalValue us = sum_list (map value us)"

fun firstReaching :: "int \<Rightarrow> int \<Rightarrow> 't Utxo list \<Rightarrow> 't Utxo list" where
  "firstReaching target acc [] = []"
| "firstReaching target acc (u # us) =
     (if acc \<ge> target then [] else u # firstReaching target (acc + value u) us)"

subsection \<open>Asset bindings\<close>

text \<open>
  \<open>Array.isArray (x) && x.length > 0\<close>, and a cache of lookups that agrees with what the
  service answers for each output, when that answer is a function of the output.
\<close>

definition hasBindings :: "'c list option \<Rightarrow> bool" where
  "hasBindings found = (case found of None \<Rightarrow> False | Some cells \<Rightarrow> length cells > 0)"

definition lookupsAgree :: "(string \<Rightarrow> int \<Rightarrow> 'c list option) \<Rightarrow> ('w, 't) state \<Rightarrow> bool" where
  "lookupsAgree bindings st \<longleftrightarrow>
     (\<forall>t v b. cachedHasRgbppAssets st (t @ '':'' @ numberToString v) = Some b
        \<longrightarrow> b = hasBindings (bindings t v))"

text \<open>
  The same filters, with the asset bindings as the service answers them: a candidate
  survives when it is not excluded and, if asset exclusion is requested, the service
  has no binding for it.
\<close>

definition keptByService ::
  "outpoint list \<Rightarrow> bool option \<Rightarrow> (string \<Rightarrow> int \<Rightarrow> 'c list option) \<Rightarrow> 't Utxo \<Rightarrow> bool" where
  "keptByService excluding onlyNonRgbpp bindings utxo \<longleftrightarrow>
     \<not> isExcluded excluding utxo
     \<and> \<not> (truthy onlyNonRgbpp \<and> hasBindings (bindings (txid utxo) (vout utxo)))"

definition survives :: "props \<Rightarrow> (string \<Rightarrow> int \<Rightarrow> 'c list option) \<Rightarrow> 't Utxo \<Rightarrow> bool" where
  "survives p bindings =
     keptByService (case excludeUtxos p of None \<Rightarrow> [] | Some es \<Rightarrow> es) (onlyNonRgbppUtxos p) bindings"

text \<open>
  Reading a decimal numeral back.
\<close>

definition digitValue :: "char \<Rightarrow> nat" where
  "digitValue c = of_char c - 48"

definition fromDigits :: "string \<Rightarrow> nat" where
  "fromDigits s = foldl (\<lambda>acc c. 10 * acc + digitValue c) 0 s"

subsection \<open>Listing calls and what a call has received\<close>

text \<open>
  The number of calls of the remote listing in the log, the candidates a call holds,
  and the invariant of the calls that share the key \<open>k\<close>: only \<open>k\<close> is ever in flight, a key
  in flight is not stored, every listing call so far has failed or is the one fetch in
  flight or stored, and every call that waits or holds candidates is covered by it.
\<close>

definition isListing :: "remote_call \<Rightarrow> bool" where
  "isListing call = (case call of GetBtcUtxos addr params \<Rightarrow> True | _ \<Rightarrow> False)"

definition listingCalls :: "('w, 't) state \<Rightarrow> nat" where
  "listingCalls st = length (filter isListing (calls (remote st)))"

definition received :: "('x, 't) task \<Rightarrow> 't Utxo list option" where
  "received t = (case t of Selecting p v \<Rightarrow> Some v | Returned got res \<Rightarrow> got | _ \<Rightarrow> None)"

definition notStarted :: "('x, 't) task \<Rightarrow> bool" where
  "notStarted t = (case t of Called p \<Rightarrow> True | _ \<Rightarrow> False)"

definition taskOk :: "string \<Rightarrow> ('w, 'x, 't) conf \<Rightarrow> ('x, 't) task \<Rightarrow> bool" where
  "taskOk k c t =
     (case t of
        Called p \<Rightarrow> internalCacheKey p = Some k
      | AwaitingOwn p \<Rightarrow> False
      | AwaitingShared p k' \<Rightarrow> k' = k \<and> inFlight c k \<noteq> None
      | Selecting p v \<Rightarrow> cachedUtxos (shared c) k = Some v
      | Returned got res \<Rightarrow>
          (case got of Some v \<Rightarrow> cachedUtxos (shared c) k = Some v | None \<Rightarrow> 0 < failedFetches c))"

definition coalesced :: "string \<Rightarrow> nat \<Rightarrow> ('w, 'x, 't) conf \<Rightarrow> bool" where
  "coalesced k n0 c \<longleftrightarrow>
     (\<forall>k'. inFlight c k' \<noteq> None \<longrightarrow> k' = k)
     \<and> (inFlight c k \<noteq> None \<longrightarrow> cachedUtxos (shared c) k = None)
     \<and> listingCalls (shared c)
         = n0 + failedFetches c
           + (if inFlight c k \<noteq> None \<or> cachedUtxos (shared c) k \<noteq> None then 1 else 0)
     \<and> (\<forall>t\<in>set (tasks c). taskOk k c t)"

section \<open>Example instances\<close>

text \<open>
  Concrete helpers, a transaction and a service, on which the properties below are
  evaluated. The helpers strip the prefix \<open>0x\<close>, take a script that starts with the byte
  \<open>6a\<close> for a data carrier, and know one type of address.
\<close>

definition exHelpers :: "(string, unit, string) helpers" where
  "exHelpers =
     \<lparr>remove0x = (\<lambda>s. if take 2 s = ''0x'' then drop 2 s else s),
      isOpReturnScriptPubkey = (\<lambda>s. Inr (take 2 s = ''6a'')),
      getAddressType = (\<lambda>a. if take 2 a = ''bc'' then Inr ''P2WPKH'' else Inl ''unsupported address''),
      addressToScriptPublicKeyHex = (\<lambda>a n. Inr (''0014'' @ a))\<rparr>"

definition exTx :: BtcApiTransaction where
  "exTx =
     \<lparr>BtcApiTransaction.txid = ''aa'',
      BtcApiTransaction.vout =
        [\<lparr>scriptpubkey = ''6a20ff'', scriptpubkey_asm = ''OP_RETURN'', scriptpubkey_type = ''op_return'',
          scriptpubkey_address = '''', BtcApiTransactionVout.value = 0\<rparr>,
         \<lparr>scriptpubkey = ''0014ab'', scriptpubkey_asm = ''OP_0'', scriptpubkey_type = ''v0_p2wpkh'',
          scriptpubkey_address = ''bc1q'', BtcApiTransactionVout.value = 546\<rparr>],
      BtcApiTransaction.status =
        \<lparr>confirmed = False, block_height = 0, block_hash = '''', block_time = 0\<rparr>\<rparr>"

definition exTxService :: "(unit, string, unit) BtcAssetsApi" where
  "exTxService =
     \<lparr>getBtcTransaction = (\<lambda>t w. (Inr (if t = ''aa'' then Some exTx else None), w)),
      getBtcUtxos = (\<lambda>a p w. (Inr [], w)),
      getRgbppAssetsByBtcUtxo = (\<lambda>t v w. (Inr (Some []), w))\<rparr>"

definition exTxSource :: "(unit, string, unit, unit) DataSource" where
  "exTxSource = \<lparr>service = exTxService, networkType = ()\<rparr>"

definition r0 :: "unit remote" where
  "r0 = \<lparr>world = (), calls = []\<rparr>"

text \<open>
  Rows of the listing: \<open>exRow txid height vout value\<close>. \<open>exTieRows\<close> has two rows that
  agree on height and vout, \<open>a\<close> before \<open>d\<close>.
\<close>

definition exStatus :: "int \<Rightarrow> BtcApiStatus" where
  "exStatus hgt = \<lparr>confirmed = True, block_height = hgt, block_hash = '''', block_time = 0\<rparr>"

definition exRow :: "string \<Rightarrow> int \<Rightarrow> int \<Rightarrow> int \<Rightarrow> BtcApiUtxo" where
  "exRow t hgt v val =
     \<lparr>BtcApiUtxo.txid = t, BtcApiUtxo.vout = v, BtcApiUtxo.value = val,
      BtcApiUtxo.status = exStatus hgt\<rparr>"

definition exTieRows :: "BtcApiUtxo list" where
  "exTieRows = [exRow ''a'' 100 0 5000, exRow ''b'' 100 1 3000, exRow ''c'' 90 0 2000,
                exRow ''d'' 100 0 700]"

definition exTieService :: "(unit, string, unit) BtcAssetsApi" where
  "exTieService =
     \<lparr>getBtcTransaction = (\<lambda>t w. (Inr None, w)),
      getBtcUtxos = (\<lambda>a p w. (Inr exTieRows, w)),
      getRgbppAssetsByBtcUtxo = (\<lambda>t v w. (Inr (Some []), w))\<rparr>"

definition exTieSource :: "(unit, string, unit, unit) DataSource" where
  "exTieSource = \<lparr>service = exTieService, networkType = ()\<rparr>"

text \<open>
  The candidates of the example of the specification, in the order of the remote
  answer; the output \<open>c:0\<close> alone carries an asset binding. No cache key, no exclusion
  and no option is set in \<open>exProps\<close>, and \<open>st0\<close> is a data source that has not been used.
\<close>

definition exRows :: "BtcApiUtxo list" where
  "exRows = [exRow ''a'' 100 0 5000, exRow ''b'' 100 1 3000, exRow ''c'' 90 0 2000]"

definition exService :: "(unit, string, unit) BtcAssetsApi" where
  "exService =
     \<lparr>getBtcTransaction = (\<lambda>t w. (Inr None, w)),
      getBtcUtxos = (\<lambda>a p w. (Inr exRows, w)),
      getRgbppAssetsByBtcUtxo = (\<lambda>t v w. (Inr (Some (if t = ''c'' then [()] else [])), w))\<rparr>"

definition exSource :: "(unit, string, unit, unit) DataSource" where
  "exSource = \<lparr>service = exService, networkType = ()\<rparr>"

definition exProps :: "int \<Rightarrow> props" where
  "exProps target =
     \<lparr>props.address = ''bc1q'', targetAmount = target, minUtxoSatoshi = None,
      allowInsufficient = None, onlyNonRgbppUtxos = None, onlyConfirmedUtxos = None,
      noAssetsApiCache = None, internalCacheKey = None, excludeUtxos = None\<rparr>"

definition exUtxo :: "string \<Rightarrow> int \<Rightarrow> int \<Rightarrow> string Utxo" where
  "exUtxo t v val =
     \<lparr>txid = t, vout = v, value = val, scriptPk = ''0014bc1q'',
      address = ''bc1q'', addressType = ''P2WPKH''\<rparr>"

definition st0 :: "(unit, string) state" where
  "st0 = \<lparr>cachedUtxos = Map.empty, cachedHasRgbppAssets = Map.empty, remote = r0\<rparr>"

definition exBindings :: "string \<Rightarrow> int \<Rightarrow> unit list option" where
  "exBindings t v = Some (if t = ''c'' then [()] else [])"

text \<open>
  A service whose first listing fails, two calls with the cache key \<open>k\<close>, and a
  configuration in which both calls have been made and neither has started.
\<close>

definition flakyService :: "(nat, string, unit) BtcAssetsApi" where
  "flakyService =
     \<lparr>getBtcTransaction = (\<lambda>t w. (Inr None, w)),
      getBtcUtxos = (\<lambda>a p w. (if w = 0 then Inl ''timeout'' else Inr exRows, Suc w)),
      getRgbppAssetsByBtcUtxo = (\<lambda>t v w. (Inr (Some []), w))\<rparr>"

definition flakySource :: "(nat, string, unit, unit) DataSource" where
  "flakySource = \<lparr>service = flakyService, networkType = ()\<rparr>"

definition flakySt0 :: "(nat, string) state" where
  "flakySt0 = \<lparr>cachedUtxos = Map.empty, cachedHasRgbppAssets = Map.empty,
               remote = \<lparr>world = 0, calls = []\<rparr>\<rparr>"

definition keyedProps :: "int \<Rightarrow> props" where
  "keyedProps target = (exProps target)\<lparr>internalCacheKey := Some ''k''\<rparr>"

definition twoCalls :: "(unit, string, string) conf" where
  "twoCalls = \<lparr>tasks = [Called (keyedProps 6000), Called (keyedProps 7500)],
               inFlight = Map.empty, shared = st0, failedFetches = 0\<rparr>"

definition twoCallsFlaky :: "(nat, string, string) conf" where
  "twoCallsFlaky = \<lparr>tasks = [Called (keyedProps 6000), Called (keyedProps 6000)],
                    inFlight = Map.empty, shared = flakySt0, failedFetches = 0\<rparr>"

section \<open>Properties of the output lookup\<close>

lemmas ex_defs = exHelpers_def exTx_def exTxService_def exTxSource_def r0_def

lemma getOutput_AsOutput_iff:
  "(\<exists>out. fst (getOutput h ds hash index rc r) = Inr (Some (AsOutput out)))
     \<longleftrightarrow> (\<exists>tx vo. fst (callGetBtcTransaction ds (remove0x h hash) r) = Inr (Some tx)
            \<and> \<not> (truthy rc \<and> \<not> confirmed (BtcApiTransaction.status tx))
            \<and> at_index (BtcApiTransaction.vout tx) index = Some vo
            \<and> isOpReturnScriptPubkey h (scriptpubkey vo) = Inr True)"
  by (auto simp: getOutput_def Let_def split: prod.splits sum.splits option.splits bool.splits if_splits)

lemma getOutput_AsUtxo_script:
  "fst (getOutput h ds hash index rc r) = Inr (Some (AsUtxo u))
     \<Longrightarrow> isOpReturnScriptPubkey h (scriptPk u) = Inr False"
  by (auto simp: getOutput_def Let_def split: prod.splits sum.splits option.splits bool.splits if_splits)

text \<open>
  Claim C7. \<open>getUtxo\<close> fails with \<open>UNSPENDABLE_OUTPUT\<close> (for this hash and index) exactly
  when \<open>getOutput\<close> resolves to an object without an address; that happens exactly when
  the transaction is found, passes the confirmation check, has the output, and the
  script of the output is a data-carrier script. A \<open>Utxo\<close> that \<open>getUtxo\<close> returns never
  has a data-carrier script.
\<close>

theorem getUtxo_unspendable:
  "(fst (getUtxo h ds hash index rc r) = Inl (TxBuildError UNSPENDABLE_OUTPUT c)
      \<longleftrightarrow> c = HashIndex hash index
          \<and> (\<exists>out. fst (getOutput h ds hash index rc r) = Inr (Some (AsOutput out))))
   \<and> ((\<exists>out. fst (getOutput h ds hash index rc r) = Inr (Some (AsOutput out)))
      \<longleftrightarrow> (\<exists>tx vo. fst (callGetBtcTransaction ds (remove0x h hash) r) = Inr (Some tx)
            \<and> \<not> (truthy rc \<and> \<not> confirmed (BtcApiTransaction.status tx))
            \<and> at_index (BtcApiTransaction.vout tx) index = Some vo
            \<and> isOpReturnScriptPubkey h (scriptpubkey vo) = Inr True))
   \<and> (\<forall>u. fst (getUtxo h ds hash index rc r) = Inr (Some u)
          \<longrightarrow> isOpReturnScriptPubkey h (scriptPk u) = Inr False)"
proof (intro conjI allI impI)
  show "fst (getUtxo h ds hash index rc r) = Inl (TxBuildError UNSPENDABLE_OUTPUT c)
      \<longleftrightarrow> c = HashIndex hash index
          \<and> (\<exists>out. fst (getOutput h ds hash index rc r) = Inr (Some (AsOutput out)))"
    by (cases "getOutput h ds hash index rc r")
       (auto simp: getUtxo_def getOutput_def Let_def
             split: prod.splits sum.splits option.splits bool.splits if_splits OutputOrUtxo.splits)
next
  show "(\<exists>out. fst (getOutput h ds hash index rc r) = Inr (Some (AsOutput out)))
      \<longleftrightarrow> (\<exists>tx vo. fst (callGetBtcTransaction ds (remove0x h hash) r) = Inr (Some tx)
            \<and> \<not> (truthy rc \<and> \<not> confirmed (BtcApiTransaction.status tx))
            \<and> at_index (BtcApiTransaction.vout tx) index = Some vo
            \<and> isOpReturnScriptPubkey h (scriptpubkey vo) = Inr True)"
    by (rule getOutput_AsOutput_iff)
next
  fix u assume "fst (getUtxo h ds hash index rc r) = Inr (Some u)"
  then have "fst (getOutput h ds hash index rc r) = Inr (Some (AsUtxo u))"
    by (cases "getOutput h ds hash index rc r")
       (auto simp: getUtxo_def split: sum.splits option.splits OutputOrUtxo.splits)
  then show "isOpReturnScriptPubkey h (scriptPk u) = Inr False"
    by (rule getOutput_AsUtxo_script)
qed

text \<open>Output 0 of the example transaction is a data carrier, output 1 is not.\<close>

theorem getUtxo_unspendable_witness:
  "fst (getUtxo exHelpers exTxSource ''0xaa'' 0 None r0)
     = Inl (TxBuildError UNSPENDABLE_OUTPUT (HashIndex ''0xaa'' 0))
   \<and> (\<exists>out. fst (getOutput exHelpers exTxSource ''0xaa'' 0 None r0) = Inr (Some (AsOutput out)))
   \<and> isOpReturnScriptPubkey exHelpers (scriptpubkey (BtcApiTransaction.vout exTx ! 0)) = Inr True
   \<and> (\<exists>u. fst (getUtxo exHelpers exTxSource ''0xaa'' 1 None r0) = Inr (Some u)
          \<and> isOpReturnScriptPubkey exHelpers (scriptPk u) = Inr False)"
proof -
  have a: "fst (getOutput exHelpers exTxSource ''0xaa'' 0 None r0)
      = Inr (Some (AsOutput \<lparr>txid = ''aa'', vout = 0, value = 0, scriptPk = ''6a20ff''\<rparr>))"
    by (simp add: getOutput_def Let_def callGetBtcTransaction_def at_index_def truthy_def ex_defs)
  have b: "fst (getUtxo exHelpers exTxSource ''0xaa'' 1 None r0)
      = Inr (Some \<lparr>txid = ''aa'', vout = 1, value = 546, scriptPk = ''0014ab'',
                   address = ''bc1q'', addressType = ''P2WPKH''\<rparr>)"
    by (simp add: getUtxo_def getOutput_def Let_def callGetBtcTransaction_def at_index_def truthy_def ex_defs)
  from getUtxo_unspendable [of exHelpers exTxSource "''0xaa''" 0 None r0 "HashIndex ''0xaa'' 0"] a
  have c: "fst (getUtxo exHelpers exTxSource ''0xaa'' 0 None r0)
     = Inl (TxBuildError UNSPENDABLE_OUTPUT (HashIndex ''0xaa'' 0))"
    by blast
  from getUtxo_unspendable [of exHelpers exTxSource "''0xaa''" 1 None r0] b
  have d: "isOpReturnScriptPubkey exHelpers
       (scriptPk \<lparr>txid = ''aa'', vout = 1, value = 546, scriptPk = ''0014ab'',
                   address = ''bc1q'', addressType = ''P2WPKH''\<rparr>) = Inr False"
    by blast
  have e: "isOpReturnScriptPubkey exHelpers (scriptpubkey (BtcApiTransaction.vout exTx ! 0)) = Inr True"
    by (simp add: ex_defs)
  from a b c d e show ?thesis by metis
qed


text \<open>
  Claim C8, as stated, fails: the example transaction exists and has no output 7, and
  with \<open>requireConfirmed\<close> set \<open>getOutput\<close> raises \<open>UNCONFIRMED_UTXO\<close>, since the
  transaction is unconfirmed.
\<close>

theorem getOutput_not_found_counterexample:
  "fst (callGetBtcTransaction exTxSource (remove0x exHelpers ''0xaa'') r0) = Inr (Some exTx)
   \<and> at_index (BtcApiTransaction.vout exTx) 7 = None
   \<and> fst (getOutput exHelpers exTxSource ''0xaa'' 7 (Some True) r0)
       = Inl (TxBuildError UNCONFIRMED_UTXO (HashIndex ''0xaa'' 7))"
  by (simp add: getOutput_def Let_def callGetBtcTransaction_def at_index_def truthy_def ex_defs)

text \<open>
  Claim C8, amended. When the service resolves, \<open>getOutput\<close> returns \<open>undefined\<close> and
  raises nothing if the transaction does not exist, or if it exists, lacks the requested
  output index, and is confirmed whenever \<open>requireConfirmed\<close> is set.
\<close>

theorem getOutput_not_found:
  assumes "fst (callGetBtcTransaction ds (remove0x h hash) r) = Inr found"
    and "found = None
         \<or> (\<exists>tx. found = Some tx \<and> at_index (BtcApiTransaction.vout tx) index = None
                \<and> (truthy requireConfirmed \<longrightarrow> confirmed (BtcApiTransaction.status tx)))"
  shows "fst (getOutput h ds hash index requireConfirmed r) = Inr None"
  using assms
  by (cases "callGetBtcTransaction ds (remove0x h hash) r")
     (auto simp: getOutput_def Let_def)

text \<open>An unknown transaction, and a missing index with no confirmation required.\<close>

theorem getOutput_not_found_witness:
  "fst (getOutput exHelpers exTxSource ''0xbb'' 0 (Some True) r0) = Inr None
   \<and> fst (getOutput exHelpers exTxSource ''0xaa'' 7 None r0) = Inr None"
proof -
  have a: "fst (callGetBtcTransaction exTxSource (remove0x exHelpers ''0xbb'') r0) = Inr None"
    by (simp add: callGetBtcTransaction_def ex_defs)
  have b: "fst (callGetBtcTransaction exTxSource (remove0x exHelpers ''0xaa'') r0) = Inr (Some exTx)"
    by (simp add: callGetBtcTransaction_def ex_defs)
  have c: "at_index (BtcApiTransaction.vout exTx) 7 = None"
    by (simp add: at_index_def ex_defs)
  have d: "truthy None \<longrightarrow> confirmed (BtcApiTransaction.status exTx)"
    by (simp add: truthy_def)
  from getOutput_not_found [OF a, of 0 "Some True"]
  have "fst (getOutput exHelpers exTxSource ''0xbb'' 0 (Some True) r0) = Inr None" by simp
  moreover from getOutput_not_found [OF b, of 7 None] c d
  have "fst (getOutput exHelpers exTxSource ''0xaa'' 7 None r0) = Inr None" by simp
  ultimately show ?thesis by simp
qed

text \<open>
  Claim C9. The confirmation check comes before the lookup of the output index: for a
  transaction that exists and is unconfirmed, \<open>getOutput\<close> and \<open>getUtxo\<close> with
  \<open>requireConfirmed = true\<close> fail with \<open>UNCONFIRMED_UTXO\<close> whatever the index is, also
  when the transaction has no such output.
\<close>

theorem getOutput_confirmation_first:
  assumes "fst (callGetBtcTransaction ds (remove0x h hash) r) = Inr (Some tx)"
    and "\<not> confirmed (BtcApiTransaction.status tx)"
  shows "fst (getOutput h ds hash index (Some True) r)
           = Inl (TxBuildError UNCONFIRMED_UTXO (HashIndex hash index))
         \<and> fst (getUtxo h ds hash index (Some True) r)
           = Inl (TxBuildError UNCONFIRMED_UTXO (HashIndex hash index))"
  using assms
  by (cases "callGetBtcTransaction ds (remove0x h hash) r")
     (auto simp: getUtxo_def getOutput_def Let_def truthy_def)

text \<open>The example transaction is unconfirmed and has no output 7.\<close>

theorem getOutput_confirmation_first_witness:
  "at_index (BtcApiTransaction.vout exTx) 7 = None
   \<and> fst (getOutput exHelpers exTxSource ''0xaa'' 7 (Some True) r0)
       = Inl (TxBuildError UNCONFIRMED_UTXO (HashIndex ''0xaa'' 7))
   \<and> fst (getUtxo exHelpers exTxSource ''0xaa'' 7 (Some True) r0)
       = Inl (TxBuildError UNCONFIRMED_UTXO (HashIndex ''0xaa'' 7))"
proof -
  have a: "fst (callGetBtcTransaction exTxSource (remove0x exHelpers ''0xaa'') r0) = Inr (Some exTx)"
    by (simp add: callGetBtcTransaction_def ex_defs)
  have b: "\<not> confirmed (BtcApiTransaction.status exTx)"
    by (simp add: ex_defs)
  have c: "at_index (BtcApiTransaction.vout exTx) 7 = None"
    by (simp add: at_index_def ex_defs)
  from getOutput_confirmation_first [OF a b, of 7] c show ?thesis by simp
qed

text \<open>
  Claim C10. \<open>isTransactionConfirmed\<close> has no guard for a transaction that the service
  reports as absent: where \<open>getOutput\<close> returns \<open>undefined\<close>, the read of \<open>tx.status\<close>
  throws a \<open>TypeError\<close>, and no boolean is returned.
\<close>

theorem isTransactionConfirmed_absent:
  assumes "fst (callGetBtcTransaction ds (remove0x h hash) r) = Inr None"
  shows "fst (isTransactionConfirmed h ds hash r) = Inl TypeError
         \<and> (\<forall>b. fst (isTransactionConfirmed h ds hash r) \<noteq> Inr b)
         \<and> fst (getOutput h ds hash index requireConfirmed r) = Inr None"
  using assms
  by (cases "callGetBtcTransaction ds (remove0x h hash) r")
     (auto simp: isTransactionConfirmed_def getOutput_def Let_def)

text \<open>The example service knows no transaction \<open>bb\<close>.\<close>

theorem isTransactionConfirmed_absent_witness:
  "fst (isTransactionConfirmed exHelpers exTxSource ''0xbb'' r0) = Inl TypeError
   \<and> fst (getOutput exHelpers exTxSource ''0xbb'' 0 None r0) = Inr None"
proof -
  have a: "fst (callGetBtcTransaction exTxSource (remove0x exHelpers ''0xbb'') r0) = Inr None"
    by (simp add: callGetBtcTransaction_def ex_defs)
  from isTransactionConfirmed_absent [OF a, of 0 None] show ?thesis by simp
qed

section \<open>Properties of the listing\<close>

subsection \<open>Insertion sort with the comparator of the source\<close>

lemma compareFn_le: "compareFn a b \<le> 0 \<longleftrightarrow> rowBefore a b"
  by (auto simp: compareFn_def rowBefore_def Let_def)

lemma rowBefore_total: "\<not> rowBefore a b \<Longrightarrow> rowBefore b a"
  by (auto simp: rowBefore_def)

lemma rowBefore_trans: "rowBefore a b \<Longrightarrow> rowBefore b c \<Longrightarrow> rowBefore a c"
  by (auto simp: rowBefore_def)

lemma mset_insertBy: "mset (insertBy cmp x ys) = add_mset x (mset ys)"
  by (induction ys) auto

lemma mset_sortBy: "mset (sortBy cmp xs) = mset xs"
  by (induction xs) (auto simp: sortBy_def mset_insertBy)

lemma set_insertBy: "set (insertBy cmp x ys) = insert x (set ys)"
  by (induction ys) auto

lemma sorted_insertBy:
  "sorted_wrt rowBefore ys \<Longrightarrow> sorted_wrt rowBefore (insertBy compareFn x ys)"
proof (induction ys)
  case Nil
  then show ?case by simp
next
  case (Cons y ys)
  show ?case
  proof (cases "compareFn x y \<le> 0")
    case True
    then have xy: "rowBefore x y" by (simp add: compareFn_le)
    have "\<forall>z\<in>set ys. rowBefore x z"
      using Cons.prems xy by (auto intro: rowBefore_trans)
    with True xy Cons.prems show ?thesis by simp
  next
    case False
    then have "rowBefore y x" by (simp add: compareFn_le rowBefore_total)
    with False Cons show ?thesis by (auto simp: set_insertBy)
  qed
qed

lemma sorted_sortBy: "sorted_wrt rowBefore (sortBy compareFn xs)"
proof (induction xs)
  case Nil
  then show ?case by (simp add: sortBy_def)
next
  case (Cons x xs)
  then have "sorted_wrt rowBefore (insertBy compareFn x (sortBy compareFn xs))"
    by (rule sorted_insertBy)
  then show ?case by (simp add: sortBy_def)
qed

lemma filter_insertBy_other:
  "\<not> P x \<Longrightarrow> filter P (insertBy cmp x ys) = filter P ys"
  by (induction ys) auto

lemma filter_insertBy_same:
  "P x \<Longrightarrow> (\<forall>y\<in>set ys. P y \<longrightarrow> cmp x y \<le> 0)
     \<Longrightarrow> filter P (insertBy cmp x ys) = x # filter P ys"
  by (induction ys) auto

lemma sameKeys_compareFn: "sameKeys hgt v a \<Longrightarrow> sameKeys hgt v b \<Longrightarrow> compareFn a b \<le> 0"
  by (simp add: sameKeys_def compareFn_def)

lemma stable_sortBy:
  "filter (sameKeys hgt v) (sortBy compareFn xs) = filter (sameKeys hgt v) xs"
proof (induction xs)
  case Nil
  then show ?case by (simp add: sortBy_def)
next
  case (Cons x xs)
  show ?case
  proof (cases "sameKeys hgt v x")
    case True
    then have "filter (sameKeys hgt v) (insertBy compareFn x (sortBy compareFn xs))
        = x # filter (sameKeys hgt v) (sortBy compareFn xs)"
      by (intro filter_insertBy_same) (auto intro: sameKeys_compareFn)
    with True Cons show ?thesis by (simp add: sortBy_def)
  next
    case False
    with Cons show ?thesis by (simp add: sortBy_def filter_insertBy_other)
  qed
qed

lemma rowsToUtxos_map:
  "getAddressType h addr = Inr t \<Longrightarrow> rowsToUtxos h addr spk rows = Inr (map (rowToUtxo addr spk t) rows)"
  by (induction rows) (auto simp: rowToUtxo_def)

text \<open>
  Claim C6. When the service resolves to \<open>rows\<close> and the two address helpers succeed,
  \<open>getUtxos\<close> returns the rows, each mapped to a \<open>Utxo\<close>, in an order that is a
  permutation of the remote answer, ascending by block height first and by \<open>vout\<close> among
  equal heights, and in which the rows that agree on both keys keep the order they had
  in the remote answer.
\<close>

theorem getUtxos_sorted:
  assumes "fst (callGetBtcUtxos ds addr params r) = Inr rows"
    and "addressToScriptPublicKeyHex h addr (networkType ds) = Inr spk"
    and "getAddressType h addr = Inr t"
  shows "fst (getUtxos h ds addr params r) = Inr (map (rowToUtxo addr spk t) (sortBy compareFn rows))
    \<and> mset (sortBy compareFn rows) = mset rows
    \<and> sorted_wrt rowBefore (sortBy compareFn rows)
    \<and> (\<forall>hgt v. filter (sameKeys hgt v) (sortBy compareFn rows) = filter (sameKeys hgt v) rows)"
proof -
  have "fst (getUtxos h ds addr params r) = Inr (map (rowToUtxo addr spk t) (sortBy compareFn rows))"
    using assms
    by (cases "callGetBtcUtxos ds addr params r") (simp add: getUtxos_def rowsToUtxos_map)
  then show ?thesis
    by (simp add: mset_sortBy sorted_sortBy stable_sortBy)
qed

text \<open>
  On \<open>exTieRows\<close> the row of height 90 comes first, and \<open>a\<close> stays before \<open>d\<close>.
\<close>

lemma sortBy_exTieRows:
  "sortBy compareFn exTieRows
     = [exRow ''c'' 90 0 2000, exRow ''a'' 100 0 5000, exRow ''d'' 100 0 700, exRow ''b'' 100 1 3000]"
  by (simp add: sortBy_def exTieRows_def compareFn_def exRow_def exStatus_def)

theorem getUtxos_sorted_witness:
  "fst (getUtxos exHelpers exTieSource ''bc1q'' None r0)
     = Inr (map (rowToUtxo ''bc1q'' ''0014bc1q'' ''P2WPKH'')
              [exRow ''c'' 90 0 2000, exRow ''a'' 100 0 5000, exRow ''d'' 100 0 700, exRow ''b'' 100 1 3000])
   \<and> filter (sameKeys 100 0) (sortBy compareFn exTieRows) = [exRow ''a'' 100 0 5000, exRow ''d'' 100 0 700]"
proof -
  have a: "fst (callGetBtcUtxos exTieSource ''bc1q'' None r0) = Inr exTieRows"
    by (simp add: callGetBtcUtxos_def exTieSource_def exTieService_def r0_def)
  have b: "addressToScriptPublicKeyHex exHelpers ''bc1q'' (networkType exTieSource) = Inr ''0014bc1q''"
    by (simp add: exHelpers_def)
  have c: "getAddressType exHelpers ''bc1q'' = Inr ''P2WPKH''"
    by (simp add: exHelpers_def)
  have d: "filter (sameKeys 100 0) exTieRows = [exRow ''a'' 100 0 5000, exRow ''d'' 100 0 700]"
    by (simp add: exTieRows_def sameKeys_def exRow_def exStatus_def)
  from getUtxos_sorted [OF a b c] d show ?thesis
    by (simp add: sortBy_exTieRows)
qed

section \<open>Properties of the selection\<close>

subsection \<open>The loop\<close>

lemma find_excluded:
  "(length excluding > 0
      \<and> find (\<lambda>exclude. txid exclude = txid utxo \<and> vout exclude = vout utxo) excluding \<noteq> None)
   \<longleftrightarrow> isExcluded excluding utxo"
  by (auto simp: isExcluded_def find_None_iff)

text \<open>
  The step of the loop, with the test on the exclusion list folded into \<open>isExcluded\<close>.
\<close>

lemma collectLoop_step:
  "collectLoop ds target excluding onr (utxo # rest) collected amt st =
     (if amt \<ge> target then (Inr (collected, amt), st)
      else if isExcluded excluding utxo
      then collectLoop ds target excluding onr rest collected amt st
      else if truthy onr
      then
        (case optionalCacheHasRgbppAssets (Some (hasRgbppAssetsKey utxo))
                (hasRgbppAssetsGetter ds utxo) st of
           (Inl e, st1) \<Rightarrow> (Inl e, st1)
         | (Inr True, st1) \<Rightarrow> collectLoop ds target excluding onr rest collected amt st1
         | (Inr False, st1) \<Rightarrow>
             collectLoop ds target excluding onr rest (collected @ [utxo]) (amt + value utxo) st1)
      else collectLoop ds target excluding onr rest (collected @ [utxo]) (amt + value utxo) st)"
  by (simp only: collectLoop.simps find_excluded)

declare collectLoop.simps(2) [simp del]

lemma firstReaching_reached: "acc \<ge> target \<Longrightarrow> firstReaching target acc us = []"
  by (cases us) auto

lemma firstReaching_prefix: "prefix (firstReaching target acc us) us"
  by (induction us arbitrary: acc) auto

lemma firstReaching_strict:
  "strict_prefix ys (firstReaching target acc us) \<Longrightarrow> acc + totalValue ys < target"
proof (induction us arbitrary: acc ys)
  case Nil
  then show ?case by simp
next
  case (Cons u us)
  show ?case
  proof (cases "acc \<ge> target")
    case True
    with Cons.prems show ?thesis by simp
  next
    case False
    show ?thesis
    proof (cases ys)
      case Nil
      with False show ?thesis by (simp add: totalValue_def)
    next
      case (Cons y ys')
      with False Cons.prems have "y = u" "strict_prefix ys' (firstReaching target (acc + value u) us)"
        by auto
      with Cons.IH [of ys' "acc + value u"] Cons show ?thesis by (simp add: totalValue_def)
    qed
  qed
qed

lemma firstReaching_all:
  "acc + totalValue (firstReaching target acc us) < target \<Longrightarrow> firstReaching target acc us = us"
  by (induction us arbitrary: acc) (auto simp: totalValue_def split: if_splits)

text \<open>
  An entry of the second cache is never overwritten, and a lookup that resolves is found
  in the cache afterwards.
\<close>

lemma optionalCacheHasRgbppAssets_keeps:
  "optionalCacheHasRgbppAssets key g st = (res, st1) \<Longrightarrow> cachedHasRgbppAssets st k = Some v
     \<Longrightarrow> cachedHasRgbppAssets st1 k = Some v"
  by (auto simp: optionalCacheHasRgbppAssets_def split: option.splits prod.splits sum.splits)

lemma optionalCacheHasRgbppAssets_stored:
  "optionalCacheHasRgbppAssets (Some k) g st = (Inr b, st1) \<Longrightarrow> cachedHasRgbppAssets st1 k = Some b"
  by (auto simp: optionalCacheHasRgbppAssets_def split: option.splits prod.splits sum.splits)

lemma collectLoop_keeps:
  "collectLoop ds target excluding onr cands collected amt st = (res, st')
     \<Longrightarrow> cachedHasRgbppAssets st k = Some v \<Longrightarrow> cachedHasRgbppAssets st' k = Some v"
proof (induction cands arbitrary: collected amt st)
  case Nil
  then show ?case by simp
next
  case (Cons u rest)
  show ?case
  proof (cases "optionalCacheHasRgbppAssets (Some (hasRgbppAssetsKey u)) (hasRgbppAssetsGetter ds u) st")
    case (Pair b st1)
    then have "cachedHasRgbppAssets st1 k = Some v"
      using Cons.prems(2) by (rule optionalCacheHasRgbppAssets_keeps)
    with Cons Pair show ?thesis
      by (auto simp: collectLoop_step split: if_splits sum.splits bool.splits)
  qed
qed

text \<open>
  The loop computes the greedy prefix of the candidates that survive the filters.
\<close>

lemma collectLoop_firstReaching:
  "collectLoop ds target excluding onr cands collected amt st = (Inr (res, sat), st')
     \<Longrightarrow> res = collected @ firstReaching target amt (filter (keptBy excluding onr st') cands)
       \<and> sat = amt + totalValue (firstReaching target amt (filter (keptBy excluding onr st') cands))"
proof (induction cands arbitrary: collected amt st)
  case Nil
  then show ?case by (simp add: totalValue_def)
next
  case (Cons u rest)
  let ?K = "keptBy excluding onr st'"
  show ?case
  proof (cases "amt \<ge> target")
    case True
    with Cons.prems show ?thesis by (simp add: collectLoop_step firstReaching_reached totalValue_def)
  next
    case below: False
    show ?thesis
    proof (cases "isExcluded excluding u")
      case True
      then have "\<not> ?K u" by (simp add: keptBy_def)
      moreover from True below Cons.prems
      have "collectLoop ds target excluding onr rest collected amt st = (Inr (res, sat), st')"
        by (simp add: collectLoop_step)
      ultimately show ?thesis using Cons.IH by simp
    next
      case notex: False
      show ?thesis
      proof (cases "truthy onr")
        case False
        then have K: "?K u" using notex by (simp add: keptBy_def)
        from False notex below Cons.prems
        have "collectLoop ds target excluding onr rest (collected @ [u]) (amt + value u) st
                = (Inr (res, sat), st')"
          by (simp add: collectLoop_step)
        from Cons.IH [OF this] K below show ?thesis by (simp add: totalValue_def)
      next
        case onr: True
        obtain b st1 where look:
          "optionalCacheHasRgbppAssets (Some (hasRgbppAssetsKey u)) (hasRgbppAssetsGetter ds u) st = (b, st1)"
          by (cases "optionalCacheHasRgbppAssets (Some (hasRgbppAssetsKey u)) (hasRgbppAssetsGetter ds u) st")
        show ?thesis
        proof (cases b)
          case (Inl e)
          with look onr notex below Cons.prems show ?thesis by (simp add: collectLoop_step)
        next
          case (Inr has)
          with look have st1: "cachedHasRgbppAssets st1 (hasRgbppAssetsKey u) = Some has"
            by (simp add: optionalCacheHasRgbppAssets_stored)
          show ?thesis
          proof (cases has)
            case True
            with Inr look onr notex below Cons.prems
            have run: "collectLoop ds target excluding onr rest collected amt st1 = (Inr (res, sat), st')"
              by (simp add: collectLoop_step)
            from collectLoop_keeps [OF run] st1 True
            have "cachedHasRgbppAssets st' (hasRgbppAssetsKey u) = Some True" by simp
            then have "\<not> ?K u" using onr by (simp add: keptBy_def)
            with Cons.IH [OF run] show ?thesis by simp
          next
            case False
            with Inr look onr notex below Cons.prems
            have run: "collectLoop ds target excluding onr rest (collected @ [u]) (amt + value u) st1
                         = (Inr (res, sat), st')"
              by (simp add: collectLoop_step)
            from collectLoop_keeps [OF run] st1 False
            have "cachedHasRgbppAssets st' (hasRgbppAssetsKey u) = Some False" by simp
            then have "?K u" using notex by (simp add: keptBy_def)
            with Cons.IH [OF run] below show ?thesis by (simp add: totalValue_def)
          qed
        qed
      qed
    qed
  qed
qed

lemma collectLoop_looked_up:
  "collectLoop ds target excluding onr cands collected amt st = (Inr (res, sat), st')
     \<Longrightarrow> truthy onr
     \<Longrightarrow> (\<forall>u\<in>set collected. cachedHasRgbppAssets st (hasRgbppAssetsKey u) = Some False)
     \<Longrightarrow> (\<forall>u\<in>set res. cachedHasRgbppAssets st' (hasRgbppAssetsKey u) = Some False)"
proof (induction cands arbitrary: collected amt st)
  case Nil
  then show ?case by simp
next
  case (Cons u rest)
  obtain b st1 where look:
    "optionalCacheHasRgbppAssets (Some (hasRgbppAssetsKey u)) (hasRgbppAssetsGetter ds u) st = (b, st1)"
    by (cases "optionalCacheHasRgbppAssets (Some (hasRgbppAssetsKey u)) (hasRgbppAssetsGetter ds u) st")
  have keep: "\<forall>u\<in>set collected. cachedHasRgbppAssets st1 (hasRgbppAssetsKey u) = Some False"
    using Cons.prems(3) optionalCacheHasRgbppAssets_keeps [OF look] by blast
  show ?case
  proof (cases "amt \<ge> target")
    case True
    with Cons.prems show ?thesis by (simp add: collectLoop_step)
  next
    case below: False
    show ?thesis
    proof (cases "isExcluded excluding u")
      case True
      with below Cons.prems
      have "collectLoop ds target excluding onr rest collected amt st = (Inr (res, sat), st')"
        by (simp add: collectLoop_step)
      from Cons.IH [OF this Cons.prems(2) Cons.prems(3)] show ?thesis .
    next
      case notex: False
      show ?thesis
      proof (cases b)
        case (Inl e)
        with look notex below Cons.prems show ?thesis by (simp add: collectLoop_step)
      next
        case (Inr has)
        with look have st1: "cachedHasRgbppAssets st1 (hasRgbppAssetsKey u) = Some has"
          by (simp add: optionalCacheHasRgbppAssets_stored)
        show ?thesis
        proof (cases has)
          case True
          with Inr look notex below Cons.prems
          have run: "collectLoop ds target excluding onr rest collected amt st1 = (Inr (res, sat), st')"
            by (simp add: collectLoop_step)
          from Cons.IH [OF run Cons.prems(2) keep] show ?thesis .
        next
          case False
          with Inr look notex below Cons.prems
          have run: "collectLoop ds target excluding onr rest (collected @ [u]) (amt + value u) st1
                       = (Inr (res, sat), st')"
            by (simp add: collectLoop_step)
          have "\<forall>u\<in>set (collected @ [u]). cachedHasRgbppAssets st1 (hasRgbppAssetsKey u) = Some False"
            using keep st1 False by simp
          from Cons.IH [OF run Cons.prems(2) this] show ?thesis .
        qed
      qed
    qed
  qed
qed

text \<open>
  Whatever is raised before the final check was thrown by the service or by a helper.
\<close>

lemma rowsToUtxos_error: "rowsToUtxos h addr spk rows = Inl e \<Longrightarrow> \<exists>x. e = Thrown x"
  by (induction rows arbitrary: e) (auto split: sum.splits)

lemma getUtxos_error: "getUtxos h ds addr params r = (Inl e, r1) \<Longrightarrow> \<exists>x. e = Thrown x"
  by (auto simp: getUtxos_def split: prod.splits sum.splits dest: rowsToUtxos_error)

lemma optionalCacheUtxos_error:
  "optionalCacheUtxos key g st = (Inl e, st1) \<Longrightarrow> \<exists>r r1. g r = (Inl e, r1)"
  by (auto simp: optionalCacheUtxos_def split: option.splits prod.splits sum.splits)

lemma optionalCacheHasRgbppAssets_error:
  "optionalCacheHasRgbppAssets key g st = (Inl e, st1) \<Longrightarrow> \<exists>r r1. g r = (Inl e, r1)"
  by (auto simp: optionalCacheHasRgbppAssets_def split: option.splits prod.splits sum.splits)

lemma hasRgbppAssetsGetter_error:
  "hasRgbppAssetsGetter ds u r = (Inl e, r1) \<Longrightarrow> \<exists>x. e = Thrown x"
  by (auto simp: hasRgbppAssetsGetter_def split: prod.splits sum.splits)

lemma collectLoop_error:
  "collectLoop ds target excluding onr cands collected amt st = (Inl e, st') \<Longrightarrow> \<exists>x. e = Thrown x"
proof (induction cands arbitrary: collected amt st)
  case Nil
  then show ?case by simp
next
  case (Cons u rest)
  then show ?case
    by (auto simp: collectLoop_step split: if_splits prod.splits sum.splits bool.splits
             dest!: optionalCacheHasRgbppAssets_error hasRgbppAssetsGetter_error)
qed

lemma accumulate_error:
  "accumulate h ds p st = (Inl e, st') \<Longrightarrow> \<exists>x. e = Thrown x"
  by (auto simp: accumulate_def collectCandidates_def split: prod.splits sum.splits
           dest!: optionalCacheUtxos_error getUtxos_error collectLoop_error)

lemma accumulate_total:
  assumes "accumulate h ds p st = (Inr (collected, amt), st')"
  shows "amt = totalValue collected"
  using assms
  by (auto simp: accumulate_def totalValue_def split: prod.splits sum.splits dest!: collectLoop_firstReaching)

lemma accumulate_selection:
  assumes "accumulate h ds p st = (Inr (collected, amt), st')"
  shows "\<exists>candidates st1. collectCandidates h ds p st = (Inr candidates, st1)
           \<and> collected = firstReaching (targetAmount p) 0 (filter (selectable p st') candidates)"
  using assms
  by (auto simp: accumulate_def selectable_def split: prod.splits sum.splits
           dest!: collectLoop_firstReaching)

lemma collectSatoshi_Inr:
  "collectSatoshi h ds p st = (Inr res, st')
     \<Longrightarrow> accumulate h ds p st = (Inr (utxos res, satoshi res), st')
       \<and> exceedSatoshi res = satoshi res - targetAmount p
       \<and> (satoshi res < targetAmount p \<longrightarrow> allowInsufficient p = Some True)"
  by (auto simp: collectSatoshi_def split: prod.splits sum.splits if_splits option.splits)

subsection \<open>The keys of the second cache\<close>

text \<open>
  The key \<open>txid:vout\<close> determines both fields: the decimal numeral has no colon, so
  the last colon of the key is the separator.
\<close>

lemma digit_cases:
  assumes "d < (10::nat)"
  shows "d = 0 \<or> d = 1 \<or> d = 2 \<or> d = 3 \<or> d = 4 \<or> d = 5 \<or> d = 6 \<or> d = 7 \<or> d = 8 \<or> d = 9"
  using assms by arith

lemma digitValue_digit: "d < 10 \<Longrightarrow> digitValue (''0123456789'' ! d) = d"
  by (drule digit_cases) (auto simp: digitValue_def)

lemma digit_in_digits: "d < 10 \<Longrightarrow> ''0123456789'' ! d \<in> set ''0123456789''"
  by (drule digit_cases) auto

lemma natToString_digits: "set (natToString n) \<subseteq> set ''0123456789''"
proof (induction n rule: natToString.induct)
  case (1 n)
  show ?case
  proof (cases "n < 10")
    case True
    then show ?thesis
      using digit_in_digits [of n] by (subst natToString.simps) simp
  next
    case False
    have "n mod 10 < 10" by simp
    with False 1 show ?thesis
      using digit_in_digits [of "n mod 10"] by (subst natToString.simps) simp
  qed
qed

lemma fromDigits_natToString: "fromDigits (natToString n) = n"
proof (induction n rule: natToString.induct)
  case (1 n)
  show ?case
  proof (cases "n < 10")
    case True
    then show ?thesis
      by (subst natToString.simps) (simp add: fromDigits_def digitValue_digit)
  next
    case False
    have "n mod 10 < 10" by simp
    with False 1 show ?thesis
      by (subst natToString.simps) (simp add: fromDigits_def digitValue_digit)
  qed
qed

lemma natToString_inj: "natToString m = natToString n \<Longrightarrow> m = n"
  by (metis fromDigits_natToString)

lemma natToString_other: "c \<notin> set ''0123456789'' \<Longrightarrow> c \<notin> set (natToString n)"
  using natToString_digits [of n] by blast

lemma natToString_no_minus: "CHR ''-'' \<notin> set (natToString n)"
  by (rule natToString_other) simp

lemma natToString_no_colon: "CHR '':'' \<notin> set (natToString n)"
  by (rule natToString_other) simp

lemma numberToString_no_colon: "CHR '':'' \<notin> set (numberToString i)"
  by (simp add: numberToString_def natToString_no_colon)

lemma minus_natToString: "CHR ''-'' # xs \<noteq> natToString n"
proof
  assume "CHR ''-'' # xs = natToString n"
  then have "set (natToString n) = insert CHR ''-'' (set xs)"
    by (simp flip: list.set(2))
  then have "CHR ''-'' \<in> set (natToString n)" by blast
  then show False by (simp add: natToString_no_minus)
qed

lemma numberToString_inj:
  assumes eq: "numberToString i = numberToString j"
  shows "i = j"
proof (cases "i < 0")
  case True
  show ?thesis
  proof (cases "j < 0")
    case jneg: True
    with True eq have "natToString (nat (- i)) = natToString (nat (- j))"
      by (simp add: numberToString_def)
    then have "nat (- i) = nat (- j)" by (rule natToString_inj)
    with True jneg show ?thesis by simp
  next
    case False
    with True eq have "CHR ''-'' # natToString (nat (- i)) = natToString (nat j)"
      by (simp add: numberToString_def)
    then show ?thesis using minus_natToString by blast
  qed
next
  case False
  show ?thesis
  proof (cases "j < 0")
    case True
    with False eq have "CHR ''-'' # natToString (nat (- j)) = natToString (nat i)"
      by (simp add: numberToString_def)
    then show ?thesis using minus_natToString by blast
  next
    case jpos: False
    with False eq have "natToString (nat i) = natToString (nat j)"
      by (simp add: numberToString_def)
    then have "nat i = nat j" by (rule natToString_inj)
    with False jpos show ?thesis by simp
  qed
qed

lemma split_at_last:
  "xs @ c # ys = xs' @ c # ys' \<Longrightarrow> c \<notin> set ys \<Longrightarrow> c \<notin> set ys' \<Longrightarrow> xs = xs' \<and> ys = ys'"
proof (induction xs arbitrary: xs')
  case Nil
  then show ?case by (cases xs') auto
next
  case (Cons a as)
  then show ?case by (cases xs') auto
qed

lemma key_inj:
  assumes "t1 @ '':'' @ numberToString v1 = t2 @ '':'' @ numberToString v2"
  shows "t1 = t2 \<and> v1 = v2"
proof -
  from assms have "t1 @ CHR '':'' # numberToString v1 = t2 @ CHR '':'' # numberToString v2"
    by simp
  from split_at_last [OF this numberToString_no_colon numberToString_no_colon]
  show ?thesis by (simp add: numberToString_inj)
qed

text \<open>
  When the answer of the service is a function of the output, a cache that agrees with
  it still does after a lookup, and after the loop.
\<close>

lemma hasRgbppAssetsGetter_pure:
  assumes "\<forall>t v w. fst (getRgbppAssetsByBtcUtxo (service ds) t v w) = Inr (bindings t v)"
    and "hasRgbppAssetsGetter ds u r = (Inr b, r1)"
  shows "b = hasBindings (bindings (txid u) (vout u))"
proof -
  from assms(1) have "fst (getRgbppAssetsByBtcUtxo (service ds) (txid u) (vout u) (world r))
      = Inr (bindings (txid u) (vout u))"
    by blast
  with assms(2) show ?thesis
    by (auto simp: hasRgbppAssetsGetter_def callGetRgbppAssetsByBtcUtxo_def hasBindings_def
             split: prod.splits sum.splits)
qed

lemma lookup_agree:
  assumes pure: "\<forall>t v w. fst (getRgbppAssetsByBtcUtxo (service ds) t v w) = Inr (bindings t v)"
    and agree: "lookupsAgree bindings st"
    and look: "optionalCacheHasRgbppAssets (Some (hasRgbppAssetsKey u)) (hasRgbppAssetsGetter ds u) st
                 = (res, st1)"
  shows "lookupsAgree bindings st1"
proof (cases "cachedHasRgbppAssets st (hasRgbppAssetsKey u)")
  case (Some b)
  with look have "st1 = st" by (simp add: optionalCacheHasRgbppAssets_def)
  with agree show ?thesis by simp
next
  case None
  obtain got r1 where getter: "hasRgbppAssetsGetter ds u (remote st) = (got, r1)"
    by (cases "hasRgbppAssetsGetter ds u (remote st)")
  show ?thesis
  proof (cases got)
    case (Inl e)
    with None getter look have "cachedHasRgbppAssets st1 = cachedHasRgbppAssets st"
      by (auto simp: optionalCacheHasRgbppAssets_def)
    with agree show ?thesis by (simp add: lookupsAgree_def)
  next
    case (Inr b)
    with getter pure have b: "b = hasBindings (bindings (txid u) (vout u))"
      using hasRgbppAssetsGetter_pure by blast
    from Inr None getter look
    have cache: "cachedHasRgbppAssets st1 = (cachedHasRgbppAssets st)(hasRgbppAssetsKey u \<mapsto> b)"
      by (auto simp: optionalCacheHasRgbppAssets_def)
    show ?thesis
      unfolding lookupsAgree_def
    proof (intro allI impI)
      fix t v b'
      assume entry: "cachedHasRgbppAssets st1 (t @ '':'' @ numberToString v) = Some b'"
      show "b' = hasBindings (bindings t v)"
      proof (cases "t @ '':'' @ numberToString v = hasRgbppAssetsKey u")
        case True
        then have "t = txid u \<and> v = vout u"
          unfolding hasRgbppAssetsKey_def by (rule key_inj)
        moreover from True entry cache have "b' = b" by simp
        ultimately show ?thesis using b by simp
      next
        case False
        with entry cache have "cachedHasRgbppAssets st (t @ '':'' @ numberToString v) = Some b'"
          by simp
        with agree show ?thesis by (simp add: lookupsAgree_def)
      qed
    qed
  qed
qed

lemma collectLoop_agree:
  assumes pure: "\<forall>t v w. fst (getRgbppAssetsByBtcUtxo (service ds) t v w) = Inr (bindings t v)"
  shows "collectLoop ds target excluding onr cands collected amt st = (res, st')
     \<Longrightarrow> lookupsAgree bindings st \<Longrightarrow> lookupsAgree bindings st'"
proof (induction cands arbitrary: collected amt st)
  case Nil
  then show ?case by simp
next
  case (Cons u rest)
  obtain b st1 where look:
    "optionalCacheHasRgbppAssets (Some (hasRgbppAssetsKey u)) (hasRgbppAssetsGetter ds u) st = (b, st1)"
    by (cases "optionalCacheHasRgbppAssets (Some (hasRgbppAssetsKey u)) (hasRgbppAssetsGetter ds u) st")
  have agree1: "lookupsAgree bindings st1"
    using pure Cons.prems(2) look by (rule lookup_agree)
  show ?case
  proof (cases "amt \<ge> target")
    case True
    with Cons.prems show ?thesis by (simp add: collectLoop_step)
  next
    case below: False
    show ?thesis
    proof (cases "isExcluded excluding u")
      case True
      with below Cons.prems
      have "collectLoop ds target excluding onr rest collected amt st = (res, st')"
        by (simp add: collectLoop_step)
      then show ?thesis using Cons.prems(2) by (rule Cons.IH)
    next
      case notex: False
      show ?thesis
      proof (cases "truthy onr")
        case False
        with notex below Cons.prems
        have "collectLoop ds target excluding onr rest (collected @ [u]) (amt + value u) st = (res, st')"
          by (simp add: collectLoop_step)
        then show ?thesis using Cons.prems(2) by (rule Cons.IH)
      next
        case onr: True
        show ?thesis
        proof (cases b)
          case (Inl e)
          with look onr notex below Cons.prems have "st' = st1"
            by (simp add: collectLoop_step)
          with agree1 show ?thesis by simp
        next
          case (Inr has)
          with look onr notex below Cons.prems
          have "\<exists>collected' amt'.
              collectLoop ds target excluding onr rest collected' amt' st1 = (res, st')"
            by (cases has) (auto simp: collectLoop_step)
          then obtain collected' amt' where
            "collectLoop ds target excluding onr rest collected' amt' st1 = (res, st')"
            by blast
          then show ?thesis using agree1 by (rule Cons.IH)
        qed
      qed
    qed
  qed
qed

lemma collectCandidates_lookups:
  "cachedHasRgbppAssets (snd (collectCandidates h ds p st)) = cachedHasRgbppAssets st"
  by (auto simp: collectCandidates_def optionalCacheUtxos_def split: option.splits prod.splits sum.splits)

text \<open>
  When every lookup of an output resolves to what the service answers for it, on the
  states that a condition \<open>agrees\<close> picks out and that lookups keep, the loop computes the
  greedy prefix of the candidates that the service-side filters let through. With asset
  exclusion off no lookup is made and no condition is needed.
\<close>

lemma collectLoop_service_filter:
  fixes ds :: "('w, 'x, 'c, 'n) DataSource"
    and agrees :: "('w, 't) state \<Rightarrow> bool"
    and cands :: "'t Utxo list"
  assumes "value": "\<And>(u :: 't Utxo) (st :: ('w, 't) state) b (st1 :: ('w, 't) state). agrees st
        \<Longrightarrow> optionalCacheHasRgbppAssets (Some (hasRgbppAssetsKey u)) (hasRgbppAssetsGetter ds u) st
              = (Inr b :: 'x error + bool, st1)
        \<Longrightarrow> b = hasBindings (bindings (txid u) (vout u))"
    and keeps: "\<And>(u :: 't Utxo) (st :: ('w, 't) state) (got :: 'x error + bool) (st1 :: ('w, 't) state). agrees st
        \<Longrightarrow> optionalCacheHasRgbppAssets (Some (hasRgbppAssetsKey u)) (hasRgbppAssetsGetter ds u) st
              = (got, st1)
        \<Longrightarrow> agrees st1"
  shows "collectLoop ds target excluding onr cands collected amt st = (Inr (res, sat), st')
     \<Longrightarrow> truthy onr \<longrightarrow> agrees st
     \<Longrightarrow> res = collected @ firstReaching target amt (filter (keptByService excluding onr bindings) cands)"
proof (induction cands arbitrary: collected amt st)
  case Nil
  then show ?case by simp
next
  case (Cons u rest)
  let ?K = "keptByService excluding onr bindings"
  show ?case
  proof (cases "amt \<ge> target")
    case True
    with Cons.prems show ?thesis by (simp add: collectLoop_step firstReaching_reached)
  next
    case below: False
    show ?thesis
    proof (cases "isExcluded excluding u")
      case True
      then have "\<not> ?K u" by (simp add: keptByService_def)
      moreover from True below Cons.prems
      have "collectLoop ds target excluding onr rest collected amt st = (Inr (res, sat), st')"
        by (simp add: collectLoop_step)
      ultimately show ?thesis using Cons.IH Cons.prems(2) by simp
    next
      case notex: False
      show ?thesis
      proof (cases "truthy onr")
        case False
        then have K: "?K u" using notex by (simp add: keptByService_def)
        from False notex below Cons.prems
        have "collectLoop ds target excluding onr rest (collected @ [u]) (amt + value u) st
                = (Inr (res, sat), st')"
          by (simp add: collectLoop_step)
        from Cons.IH [OF this] False K below show ?thesis by simp
      next
        case onr: True
        with Cons.prems(2) have agree: "agrees st" by simp
        obtain b st1 where look:
          "optionalCacheHasRgbppAssets (Some (hasRgbppAssetsKey u)) (hasRgbppAssetsGetter ds u) st = (b, st1)"
          by (cases "optionalCacheHasRgbppAssets (Some (hasRgbppAssetsKey u)) (hasRgbppAssetsGetter ds u) st")
        have agree1: "truthy onr \<longrightarrow> agrees st1"
          using keeps [OF agree look] by simp
        show ?thesis
        proof (cases b)
          case (Inl e)
          with look onr notex below Cons.prems show ?thesis by (simp add: collectLoop_step)
        next
          case (Inr has)
          with look have has: "has = hasBindings (bindings (txid u) (vout u))"
            using "value" [OF agree] by simp
          show ?thesis
          proof (cases has)
            case True
            with Inr look onr notex below Cons.prems
            have run: "collectLoop ds target excluding onr rest collected amt st1 = (Inr (res, sat), st')"
              by (simp add: collectLoop_step)
            from True has onr have "\<not> ?K u" by (simp add: keptByService_def)
            with Cons.IH [OF run agree1] show ?thesis by simp
          next
            case False
            with Inr look onr notex below Cons.prems
            have run: "collectLoop ds target excluding onr rest (collected @ [u]) (amt + value u) st1
                         = (Inr (res, sat), st')"
              by (simp add: collectLoop_step)
            from False has notex have "?K u" by (simp add: keptByService_def)
            with Cons.IH [OF run agree1] below show ?thesis by simp
          qed
        qed
      qed
    qed
  qed
qed

subsection \<open>The example data source\<close>

lemma getUtxos_exSource:
  "getUtxos exHelpers exSource ''bc1q'' params r
     = (Inr [exUtxo ''c'' 0 2000, exUtxo ''a'' 0 5000, exUtxo ''b'' 1 3000],
        \<lparr>world = (), calls = calls r @ [GetBtcUtxos ''bc1q'' params]\<rparr>)"
  by (simp add: getUtxos_def callGetBtcUtxos_def exSource_def exService_def exHelpers_def
      exRows_def exRow_def exStatus_def exUtxo_def sortBy_def compareFn_def)

lemma collectCandidates_exSource:
  "fst (collectCandidates exHelpers exSource (exProps target) st0)
     = Inr [exUtxo ''c'' 0 2000, exUtxo ''a'' 0 5000, exUtxo ''b'' 1 3000]"
  by (simp add: collectCandidates_def optionalCacheUtxos_def exProps_def getUtxos_exSource)

lemma hasRgbppAssetsGetter_exSource:
  "hasRgbppAssetsGetter exSource u r
     = (Inr (txid u = ''c''),
        \<lparr>world = (), calls = calls r @ [GetRgbppAssetsByBtcUtxo (txid u) (vout u)]\<rparr>)"
  by (simp add: hasRgbppAssetsGetter_def callGetRgbppAssetsByBtcUtxo_def exSource_def exService_def)

lemma numberToString_digit:
  "numberToString 0 = ''0''" "numberToString 1 = ''1''"
  by (simp_all add: numberToString_def natToString.simps)

lemmas selection_defs =
  collectSatoshi_def accumulate_def collectCandidates_def optionalCacheUtxos_def
  optionalCacheHasRgbppAssets_def hasRgbppAssetsGetter_exSource
  getUtxos_exSource collectLoop_step isExcluded_def truthy_def exProps_def st0_def exUtxo_def
  r0_def hasRgbppAssetsKey_def

lemma accumulate_exSource_all:
  "10000 \<le> target \<Longrightarrow>
   fst (accumulate exHelpers exSource (exProps target\<lparr>allowInsufficient := allow\<rparr>) st0)
     = Inr ([exUtxo ''c'' 0 2000, exUtxo ''a'' 0 5000, exUtxo ''b'' 1 3000], 10000)"
  by (simp add: selection_defs)

subsection \<open>The claims on \<open>collectSatoshi\<close>\<close>

text \<open>
  Claim C1. Whenever \<open>collectSatoshi\<close> returns, its selection is a prefix of the
  candidates that survive the exclusion list and the asset-binding filter, in the order
  of the candidate list; every shorter prefix of the selection has a cumulative value
  below the target, so the selection stops at the first cumulative value that reaches
  the target; a selection whose value stays below the target is the whole filtered
  list, and there is none unless \<open>allowInsufficient\<close> is set. The total and the surplus
  are those of the selection. The asset-binding filter is stated twice: by the lookups
  as the cache holds them when the call ends, and by the bindings the service answers
  with, when it answers each output with a fixed list and the cache agrees with these
  answers when the call starts (no condition when asset exclusion is off). In the
  example of the specification the candidates are sorted to \<open>c, a, b\<close> and the target
  6000 selects \<open>c, a\<close>: (90,0) and (100,0), with total 7000 and surplus 1000.
\<close>

theorem collectSatoshi_prefix:
  "(\<forall>res st'. collectSatoshi h (ds :: ('w, 'x, 'c, 'n) DataSource) p (st :: ('w, 't) state)
        = (Inr res, st') \<longrightarrow>
      (\<exists>candidates st1. collectCandidates h ds p st = (Inr candidates, st1)
         \<and> prefix (utxos res) (filter (selectable p st') candidates)
         \<and> (\<forall>ys. strict_prefix ys (utxos res) \<longrightarrow> totalValue ys < targetAmount p)
         \<and> (totalValue (utxos res) < targetAmount p
              \<longrightarrow> utxos res = filter (selectable p st') candidates)
         \<and> (allowInsufficient p \<noteq> Some True \<longrightarrow> targetAmount p \<le> totalValue (utxos res))
         \<and> satoshi res = totalValue (utxos res)
         \<and> exceedSatoshi res = totalValue (utxos res) - targetAmount p
         \<and> ((truthy (onlyNonRgbppUtxos p) \<longrightarrow>
                (\<forall>t v w. fst (getRgbppAssetsByBtcUtxo (service ds) t v w) = Inr (bindings t v))
                \<and> lookupsAgree bindings st)
             \<longrightarrow> utxos res
                   = firstReaching (targetAmount p) 0 (filter (survives p bindings) candidates)
                 \<and> prefix (utxos res) (filter (survives p bindings) candidates)
                 \<and> (totalValue (utxos res) < targetAmount p
                      \<longrightarrow> utxos res = filter (survives p bindings) candidates))))
   \<and> fst (collectCandidates exHelpers exSource (exProps 6000) st0)
       = Inr [exUtxo ''c'' 0 2000, exUtxo ''a'' 0 5000, exUtxo ''b'' 1 3000]
   \<and> fst (collectSatoshi exHelpers exSource (exProps 6000) st0)
       = Inr \<lparr>utxos = [exUtxo ''c'' 0 2000, exUtxo ''a'' 0 5000],
              satoshi = 7000, exceedSatoshi = 1000\<rparr>"
proof -
  have general: "\<exists>candidates st1. collectCandidates h ds p st = (Inr candidates, st1)
         \<and> prefix (utxos res) (filter (selectable p st') candidates)
         \<and> (\<forall>ys. strict_prefix ys (utxos res) \<longrightarrow> totalValue ys < targetAmount p)
         \<and> (totalValue (utxos res) < targetAmount p
              \<longrightarrow> utxos res = filter (selectable p st') candidates)
         \<and> (allowInsufficient p \<noteq> Some True \<longrightarrow> targetAmount p \<le> totalValue (utxos res))
         \<and> satoshi res = totalValue (utxos res)
         \<and> exceedSatoshi res = totalValue (utxos res) - targetAmount p
         \<and> ((truthy (onlyNonRgbppUtxos p) \<longrightarrow>
                (\<forall>t v w. fst (getRgbppAssetsByBtcUtxo (service ds) t v w) = Inr (bindings t v))
                \<and> lookupsAgree bindings st)
             \<longrightarrow> utxos res
                   = firstReaching (targetAmount p) 0 (filter (survives p bindings) candidates)
                 \<and> prefix (utxos res) (filter (survives p bindings) candidates)
                 \<and> (totalValue (utxos res) < targetAmount p
                      \<longrightarrow> utxos res = filter (survives p bindings) candidates))"
    if run: "collectSatoshi h ds p st = (Inr res, st')" for res st'
  proof -
    from run have acc: "accumulate h ds p st = (Inr (utxos res, satoshi res), st')"
      and exceed: "exceedSatoshi res = satoshi res - targetAmount p"
      and allowed: "satoshi res < targetAmount p \<longrightarrow> allowInsufficient p = Some True"
      by (simp_all add: collectSatoshi_Inr)
    from accumulate_selection [OF acc] obtain candidates st1
      where cands: "collectCandidates h ds p st = (Inr candidates, st1)"
        and sel: "utxos res = firstReaching (targetAmount p) 0 (filter (selectable p st') candidates)"
      by blast
    have sat: "satoshi res = totalValue (utxos res)"
      using acc by (rule accumulate_total)
    have a: "prefix (utxos res) (filter (selectable p st') candidates)"
      unfolding sel by (rule firstReaching_prefix)
    have b: "\<forall>ys. strict_prefix ys (utxos res) \<longrightarrow> totalValue ys < targetAmount p"
      using firstReaching_strict [of _ "targetAmount p" 0] unfolding sel by fastforce
    have c: "totalValue (utxos res) < targetAmount p
        \<longrightarrow> utxos res = filter (selectable p st') candidates"
      using firstReaching_all [of 0 "targetAmount p"] unfolding sel by fastforce
    have d: "allowInsufficient p \<noteq> Some True \<longrightarrow> targetAmount p \<le> totalValue (utxos res)"
      using allowed sat by auto
    have e: "(truthy (onlyNonRgbppUtxos p) \<longrightarrow>
                (\<forall>t v w. fst (getRgbppAssetsByBtcUtxo (service ds) t v w) = Inr (bindings t v))
                \<and> lookupsAgree bindings st)
             \<longrightarrow> utxos res
                   = firstReaching (targetAmount p) 0 (filter (survives p bindings) candidates)
                 \<and> prefix (utxos res) (filter (survives p bindings) candidates)
                 \<and> (totalValue (utxos res) < targetAmount p
                      \<longrightarrow> utxos res = filter (survives p bindings) candidates)"
    proof (rule impI)
      assume hyp: "truthy (onlyNonRgbppUtxos p) \<longrightarrow>
                (\<forall>t v w. fst (getRgbppAssetsByBtcUtxo (service ds) t v w) = Inr (bindings t v))
                \<and> lookupsAgree bindings st"
      from acc cands have loop:
        "collectLoop ds (targetAmount p) (case excludeUtxos p of None \<Rightarrow> [] | Some es \<Rightarrow> es)
           (onlyNonRgbppUtxos p) candidates [] 0 st1 = (Inr (utxos res, satoshi res), st')"
        by (simp add: accumulate_def)
      have sel': "utxos res
          = firstReaching (targetAmount p) 0 (filter (survives p bindings) candidates)"
      proof (cases "truthy (onlyNonRgbppUtxos p)")
        case False
        have "utxos res = [] @ firstReaching (targetAmount p) 0
            (filter (keptByService (case excludeUtxos p of None \<Rightarrow> [] | Some es \<Rightarrow> es)
               (onlyNonRgbppUtxos p) bindings) candidates)"
        proof (rule collectLoop_service_filter
            [where agrees = "\<lambda>s. False" and ds = ds and bindings = bindings])
          show "collectLoop ds (targetAmount p) (case excludeUtxos p of None \<Rightarrow> [] | Some es \<Rightarrow> es)
             (onlyNonRgbppUtxos p) candidates [] 0 st1 = (Inr (utxos res, satoshi res), st')"
            by (rule loop)
          show "truthy (onlyNonRgbppUtxos p) \<longrightarrow> False"
            using False by simp
        qed simp_all
        then show ?thesis by (simp add: survives_def)
      next
        case True
        with hyp have pure: "\<forall>t v w. fst (getRgbppAssetsByBtcUtxo (service ds) t v w) = Inr (bindings t v)"
          and agree: "lookupsAgree bindings st"
          by simp_all
        from cands collectCandidates_lookups [of h ds p st]
        have "cachedHasRgbppAssets st1 = cachedHasRgbppAssets st" by simp
        with agree have agree1: "lookupsAgree bindings st1" by (simp add: lookupsAgree_def)
        have answered: "b = hasBindings (bindings (txid u) (vout u))"
          if agrees: "lookupsAgree bindings s"
            and look: "optionalCacheHasRgbppAssets (Some (hasRgbppAssetsKey u))
                         (hasRgbppAssetsGetter ds u) s = (Inr b, s1)"
          for u :: "'t Utxo" and s s1 :: "('w, 't) state" and b
        proof (cases "cachedHasRgbppAssets s (txid u @ '':'' @ numberToString (vout u))")
          case (Some b')
          with look have "b' = b"
            by (simp add: optionalCacheHasRgbppAssets_def hasRgbppAssetsKey_def)
          with Some agrees show ?thesis
            unfolding lookupsAgree_def by blast
        next
          case None
          from pure have "fst (getRgbppAssetsByBtcUtxo (service ds) (txid u) (vout u) (world (remote s)))
              = Inr (bindings (txid u) (vout u))"
            by blast
          with None look show ?thesis
            by (auto simp: optionalCacheHasRgbppAssets_def hasRgbppAssetsKey_def
                  hasRgbppAssetsGetter_def callGetRgbppAssetsByBtcUtxo_def hasBindings_def
                split: prod.splits sum.splits)
        qed
        have kept: "lookupsAgree bindings s1"
          if "lookupsAgree bindings s"
            and "optionalCacheHasRgbppAssets (Some (hasRgbppAssetsKey u))
                         (hasRgbppAssetsGetter ds u) s = (got, s1)"
          for u :: "'t Utxo" and s s1 :: "('w, 't) state" and got :: "'x error + bool"
          using pure that by (rule lookup_agree)
        have "utxos res = [] @ firstReaching (targetAmount p) 0
            (filter (keptByService (case excludeUtxos p of None \<Rightarrow> [] | Some es \<Rightarrow> es)
               (onlyNonRgbppUtxos p) bindings) candidates)"
        proof (rule collectLoop_service_filter
            [where agrees = "lookupsAgree bindings" and ds = ds and bindings = bindings])
          show "collectLoop ds (targetAmount p) (case excludeUtxos p of None \<Rightarrow> [] | Some es \<Rightarrow> es)
             (onlyNonRgbppUtxos p) candidates [] 0 st1 = (Inr (utxos res, satoshi res), st')"
            by (rule loop)
          show "truthy (onlyNonRgbppUtxos p) \<longrightarrow> lookupsAgree bindings st1"
            using agree1 by simp
        qed (erule (1) answered, erule (1) kept)
        then show ?thesis by (simp add: survives_def)
      qed
      have pre: "prefix (utxos res) (filter (survives p bindings) candidates)"
        by (subst sel') (rule firstReaching_prefix)
      have whole: "totalValue (utxos res) < targetAmount p
          \<longrightarrow> utxos res = filter (survives p bindings) candidates"
      proof
        assume "totalValue (utxos res) < targetAmount p"
        then have "0 + totalValue (firstReaching (targetAmount p) 0
            (filter (survives p bindings) candidates)) < targetAmount p"
          using sel' by simp
        then have "firstReaching (targetAmount p) 0 (filter (survives p bindings) candidates)
            = filter (survives p bindings) candidates"
          by (rule firstReaching_all)
        with sel' show "utxos res = filter (survives p bindings) candidates" by simp
      qed
      show "utxos res
                   = firstReaching (targetAmount p) 0 (filter (survives p bindings) candidates)
                 \<and> prefix (utxos res) (filter (survives p bindings) candidates)
                 \<and> (totalValue (utxos res) < targetAmount p
                      \<longrightarrow> utxos res = filter (survives p bindings) candidates)"
        by (intro conjI sel' pre whole)
    qed
    have f: "exceedSatoshi res = totalValue (utxos res) - targetAmount p"
      using exceed sat by simp
    show ?thesis
      by (rule exI [of _ candidates], rule exI [of _ st1]) (intro conjI cands a b c d sat f e)
  qed
  have sorted: "fst (collectCandidates exHelpers exSource (exProps 6000) st0)
       = Inr [exUtxo ''c'' 0 2000, exUtxo ''a'' 0 5000, exUtxo ''b'' 1 3000]"
    by (rule collectCandidates_exSource)
  have example: "fst (collectSatoshi exHelpers exSource (exProps 6000) st0)
       = Inr \<lparr>utxos = [exUtxo ''c'' 0 2000, exUtxo ''a'' 0 5000],
              satoshi = 7000, exceedSatoshi = 1000\<rparr>"
    by (simp add: collectSatoshi_def accumulate_def collectCandidates_def optionalCacheUtxos_def
        getUtxos_exSource collectLoop_step isExcluded_def truthy_def exProps_def st0_def exUtxo_def)
  show ?thesis
  proof (rule conjI)
    show "\<forall>res st'. collectSatoshi h ds p st = (Inr res, st') \<longrightarrow>
      (\<exists>candidates st1. collectCandidates h ds p st = (Inr candidates, st1)
         \<and> prefix (utxos res) (filter (selectable p st') candidates)
         \<and> (\<forall>ys. strict_prefix ys (utxos res) \<longrightarrow> totalValue ys < targetAmount p)
         \<and> (totalValue (utxos res) < targetAmount p
              \<longrightarrow> utxos res = filter (selectable p st') candidates)
         \<and> (allowInsufficient p \<noteq> Some True \<longrightarrow> targetAmount p \<le> totalValue (utxos res))
         \<and> satoshi res = totalValue (utxos res)
         \<and> exceedSatoshi res = totalValue (utxos res) - targetAmount p
         \<and> ((truthy (onlyNonRgbppUtxos p) \<longrightarrow>
                (\<forall>t v w. fst (getRgbppAssetsByBtcUtxo (service ds) t v w) = Inr (bindings t v))
                \<and> lookupsAgree bindings st)
             \<longrightarrow> utxos res
                   = firstReaching (targetAmount p) 0 (filter (survives p bindings) candidates)
                 \<and> prefix (utxos res) (filter (survives p bindings) candidates)
                 \<and> (totalValue (utxos res) < targetAmount p
                      \<longrightarrow> utxos res = filter (survives p bindings) candidates)))"
      by (intro allI impI) (rule general)
    show "fst (collectCandidates exHelpers exSource (exProps 6000) st0)
       = Inr [exUtxo ''c'' 0 2000, exUtxo ''a'' 0 5000, exUtxo ''b'' 1 3000]
      \<and> fst (collectSatoshi exHelpers exSource (exProps 6000) st0)
       = Inr \<lparr>utxos = [exUtxo ''c'' 0 2000, exUtxo ''a'' 0 5000],
              satoshi = 7000, exceedSatoshi = 1000\<rparr>"
      by (intro conjI sorted example)
  qed
qed

text \<open>
  The general part at the example, where \<open>[c]\<close> is a shorter prefix with 2000 below
  6000, and at the same call with asset exclusion on, where the service has a binding
  for \<open>c:0\<close> and the selection is \<open>a, b\<close>.
\<close>

theorem collectSatoshi_prefix_witness:
  "utxos (projr (fst (collectSatoshi exHelpers exSource (exProps 6000) st0)))
     = [exUtxo ''c'' 0 2000, exUtxo ''a'' 0 5000]
   \<and> prefix [exUtxo ''c'' 0 2000, exUtxo ''a'' 0 5000]
         (filter (selectable (exProps 6000) (snd (collectSatoshi exHelpers exSource (exProps 6000) st0)))
            [exUtxo ''c'' 0 2000, exUtxo ''a'' 0 5000, exUtxo ''b'' 1 3000])
   \<and> prefix [exUtxo ''c'' 0 2000, exUtxo ''a'' 0 5000]
         (filter (survives (exProps 6000) exBindings)
            [exUtxo ''c'' 0 2000, exUtxo ''a'' 0 5000, exUtxo ''b'' 1 3000])
   \<and> totalValue [exUtxo ''c'' 0 2000] < 6000
   \<and> totalValue [exUtxo ''c'' 0 2000, exUtxo ''a'' 0 5000] = 7000
   \<and> fst (collectSatoshi exHelpers exSource (exProps 6000\<lparr>onlyNonRgbppUtxos := Some True\<rparr>) st0)
       = Inr \<lparr>utxos = [exUtxo ''a'' 0 5000, exUtxo ''b'' 1 3000], satoshi = 8000, exceedSatoshi = 2000\<rparr>
   \<and> filter (survives (exProps 6000\<lparr>onlyNonRgbppUtxos := Some True\<rparr>) exBindings)
         [exUtxo ''c'' 0 2000, exUtxo ''a'' 0 5000, exUtxo ''b'' 1 3000]
       = [exUtxo ''a'' 0 5000, exUtxo ''b'' 1 3000]
   \<and> prefix [exUtxo ''a'' 0 5000, exUtxo ''b'' 1 3000]
         (filter (survives (exProps 6000\<lparr>onlyNonRgbppUtxos := Some True\<rparr>) exBindings)
            [exUtxo ''c'' 0 2000, exUtxo ''a'' 0 5000, exUtxo ''b'' 1 3000])"
proof -
  let ?all = "[exUtxo ''c'' 0 2000, exUtxo ''a'' 0 5000, exUtxo ''b'' 1 3000]"
  let ?run = "collectSatoshi exHelpers exSource (exProps 6000) st0"
  let ?res = "\<lparr>utxos = [exUtxo ''c'' 0 2000, exUtxo ''a'' 0 5000],
               satoshi = 7000, exceedSatoshi = 1000\<rparr>"
  let ?p2 = "exProps 6000\<lparr>onlyNonRgbppUtxos := Some True\<rparr>"
  let ?run2 = "collectSatoshi exHelpers exSource ?p2 st0"
  let ?res2 = "\<lparr>utxos = [exUtxo ''a'' 0 5000, exUtxo ''b'' 1 3000], satoshi = 8000, exceedSatoshi = 2000\<rparr>"
  have pure: "\<forall>t v w. fst (getRgbppAssetsByBtcUtxo (service exSource) t v w) = Inr (exBindings t v)"
    by (simp add: exSource_def exService_def exBindings_def)
  have agree: "lookupsAgree exBindings st0"
    by (simp add: lookupsAgree_def st0_def)
  note inst = collectSatoshi_prefix [of exHelpers exSource "exProps 6000" st0 exBindings]
  note inst2 = collectSatoshi_prefix [of exHelpers exSource ?p2 st0 exBindings]
  from inst have res: "fst ?run = Inr ?res" by (rule conjunct2 [THEN conjunct2])
  then have run: "?run = (Inr ?res, snd ?run)"
    by (metis prod.collapse)
  from inst [THEN conjunct1, rule_format, OF run] obtain candidates st1 where
    cands: "collectCandidates exHelpers exSource (exProps 6000) st0 = (Inr candidates, st1)"
    and pre: "prefix (utxos ?res) (filter (selectable (exProps 6000) (snd ?run)) candidates)"
    and strict: "\<forall>ys. strict_prefix ys (utxos ?res) \<longrightarrow> totalValue ys < targetAmount (exProps 6000)"
    and sat: "satoshi ?res = totalValue (utxos ?res)"
    and svc: "(truthy (onlyNonRgbppUtxos (exProps 6000)) \<longrightarrow>
                (\<forall>t v w. fst (getRgbppAssetsByBtcUtxo (service exSource) t v w) = Inr (exBindings t v))
                \<and> lookupsAgree exBindings st0)
             \<longrightarrow> utxos ?res
                   = firstReaching (targetAmount (exProps 6000)) 0 (filter (survives (exProps 6000) exBindings) candidates)
                 \<and> prefix (utxos ?res) (filter (survives (exProps 6000) exBindings) candidates)
                 \<and> (totalValue (utxos ?res) < targetAmount (exProps 6000)
                      \<longrightarrow> utxos ?res = filter (survives (exProps 6000) exBindings) candidates)"
    by blast
  from cands collectCandidates_exSource [of 6000]
  have c: "candidates = ?all"
    by simp
  from svc pure agree have pre_svc: "prefix (utxos ?res) (filter (survives (exProps 6000) exBindings) candidates)"
    by blast
  have "strict_prefix [exUtxo ''c'' 0 2000] (utxos ?res)"
    by (simp add: strict_prefix_def)
  with strict have short: "totalValue [exUtxo ''c'' 0 2000] < 6000"
    by (auto simp: exProps_def)
  have res2: "fst ?run2 = Inr ?res2"
    by (simp add: selection_defs numberToString_digit)
  then have run2: "?run2 = (Inr ?res2, snd ?run2)"
    by (metis prod.collapse)
  have cands2: "fst (collectCandidates exHelpers exSource ?p2 st0) = Inr ?all"
    by (simp add: collectCandidates_def optionalCacheUtxos_def exProps_def getUtxos_exSource)
  from inst2 [THEN conjunct1, rule_format, OF run2] obtain candidates2 st2 where
    cands2': "collectCandidates exHelpers exSource ?p2 st0 = (Inr candidates2, st2)"
    and svc2: "(truthy (onlyNonRgbppUtxos ?p2) \<longrightarrow>
                (\<forall>t v w. fst (getRgbppAssetsByBtcUtxo (service exSource) t v w) = Inr (exBindings t v))
                \<and> lookupsAgree exBindings st0)
             \<longrightarrow> utxos ?res2
                   = firstReaching (targetAmount ?p2) 0 (filter (survives ?p2 exBindings) candidates2)
                 \<and> prefix (utxos ?res2) (filter (survives ?p2 exBindings) candidates2)
                 \<and> (totalValue (utxos ?res2) < targetAmount ?p2
                      \<longrightarrow> utxos ?res2 = filter (survives ?p2 exBindings) candidates2)"
    by blast
  from cands2 cands2' have c2: "candidates2 = ?all" by simp
  from svc2 pure agree have pre2: "prefix (utxos ?res2) (filter (survives ?p2 exBindings) candidates2)"
    by blast
  have filt: "filter (survives ?p2 exBindings) ?all = [exUtxo ''a'' 0 5000, exUtxo ''b'' 1 3000]"
    by (simp add: survives_def keptByService_def isExcluded_def truthy_def hasBindings_def
        exBindings_def exProps_def exUtxo_def)
  from res pre pre_svc sat c short res2 filt pre2 c2 show ?thesis
    by simp
qed

text \<open>
  Claim C3. \<open>collectSatoshi\<close> fails with \<open>INSUFFICIENT_UTXO\<close> exactly when the loop
  ends with an accumulated amount strictly below the target and \<open>allowInsufficient\<close> is
  not set, and the error carries the target and the amount. When it returns, the surplus
  is the total minus the target, the total is the value of the selection, and the surplus
  is negative only if \<open>allowInsufficient\<close> is set. An amount equal to the target does not
  fail.
\<close>

theorem collectSatoshi_insufficient:
  "(fst (collectSatoshi h ds p st) = Inl (TxBuildError INSUFFICIENT_UTXO c)
      \<longleftrightarrow> (\<exists>collected amt. fst (accumulate h ds p st) = Inr (collected, amt)
             \<and> amt < targetAmount p \<and> allowInsufficient p \<noteq> Some True
             \<and> c = ExpectedActual (targetAmount p) amt))
   \<and> (\<forall>res. fst (collectSatoshi h ds p st) = Inr res \<longrightarrow>
         fst (accumulate h ds p st) = Inr (utxos res, satoshi res)
         \<and> satoshi res = totalValue (utxos res)
         \<and> exceedSatoshi res = satoshi res - targetAmount p
         \<and> (exceedSatoshi res < 0 \<longrightarrow> allowInsufficient p = Some True))
   \<and> (\<forall>collected amt.
         fst (accumulate h ds p st) = Inr (collected, amt)
         \<and> (targetAmount p \<le> amt \<or> allowInsufficient p = Some True)
         \<longrightarrow> fst (collectSatoshi h ds p st)
               = Inr \<lparr>utxos = collected, satoshi = amt, exceedSatoshi = amt - targetAmount p\<rparr>)"
proof -
  have fails: "fst (collectSatoshi h ds p st) = Inl (TxBuildError INSUFFICIENT_UTXO c)
      \<longleftrightarrow> (\<exists>collected amt. fst (accumulate h ds p st) = Inr (collected, amt)
             \<and> amt < targetAmount p \<and> allowInsufficient p \<noteq> Some True
             \<and> c = ExpectedActual (targetAmount p) amt)"
  proof (cases "accumulate h ds p st")
    case (Pair a st2)
    show ?thesis
    proof (cases a)
      case (Inl e)
      with Pair obtain x where "e = Thrown x"
        using accumulate_error by blast
      with Inl Pair show ?thesis by (simp add: collectSatoshi_def)
    next
      case (Inr b)
      with Pair show ?thesis
        by (cases b) (auto simp: collectSatoshi_def split: option.splits)
    qed
  qed
  have returns: "fst (accumulate h ds p st) = Inr (utxos res, satoshi res)
         \<and> satoshi res = totalValue (utxos res)
         \<and> exceedSatoshi res = satoshi res - targetAmount p
         \<and> (exceedSatoshi res < 0 \<longrightarrow> allowInsufficient p = Some True)"
    if "fst (collectSatoshi h ds p st) = Inr res" for res
  proof -
    from that have run: "collectSatoshi h ds p st = (Inr res, snd (collectSatoshi h ds p st))"
      by (metis prod.collapse)
    note facts = collectSatoshi_Inr [OF run]
    then have acc: "accumulate h ds p st
        = (Inr (utxos res, satoshi res), snd (collectSatoshi h ds p st))"
      by simp
    from facts accumulate_total [OF acc] show ?thesis by simp
  qed
  have enough: "fst (collectSatoshi h ds p st)
               = Inr \<lparr>utxos = collected, satoshi = amt, exceedSatoshi = amt - targetAmount p\<rparr>"
    if "fst (accumulate h ds p st) = Inr (collected, amt)
         \<and> (targetAmount p \<le> amt \<or> allowInsufficient p = Some True)" for collected amt
    using that by (cases "accumulate h ds p st") (auto simp: collectSatoshi_def)
  from fails returns enough show ?thesis by blast
qed

text \<open>
  The three candidates are worth 10000: the target 10001 fails, the target 10000 does
  not, and the target 10001 with \<open>allowInsufficient\<close> returns the surplus \<open>-1\<close>.
\<close>

theorem collectSatoshi_insufficient_witness:
  "fst (collectSatoshi exHelpers exSource (exProps 10001) st0)
     = Inl (TxBuildError INSUFFICIENT_UTXO (ExpectedActual 10001 10000))
   \<and> fst (collectSatoshi exHelpers exSource (exProps 10000) st0)
     = Inr \<lparr>utxos = [exUtxo ''c'' 0 2000, exUtxo ''a'' 0 5000, exUtxo ''b'' 1 3000],
            satoshi = 10000, exceedSatoshi = 0\<rparr>
   \<and> fst (collectSatoshi exHelpers exSource (exProps 10001\<lparr>allowInsufficient := Some True\<rparr>) st0)
     = Inr \<lparr>utxos = [exUtxo ''c'' 0 2000, exUtxo ''a'' 0 5000, exUtxo ''b'' 1 3000],
            satoshi = 10000, exceedSatoshi = - 1\<rparr>"
proof -
  let ?all = "[exUtxo ''c'' 0 2000, exUtxo ''a'' 0 5000, exUtxo ''b'' 1 3000]"
  have fields: "targetAmount (exProps t) = t" "allowInsufficient (exProps t) = None" for t
    by (simp_all add: exProps_def)
  have a: "fst (accumulate exHelpers exSource (exProps 10001) st0) = Inr (?all, 10000)"
    using accumulate_exSource_all [of 10001 None] by (simp add: exProps_def)
  have b: "fst (accumulate exHelpers exSource (exProps 10000) st0) = Inr (?all, 10000)"
    using accumulate_exSource_all [of 10000 None] by (simp add: exProps_def)
  have c: "fst (accumulate exHelpers exSource (exProps 10001\<lparr>allowInsufficient := Some True\<rparr>) st0)
     = Inr (?all, 10000)"
    using accumulate_exSource_all [of 10001 "Some True"] by simp
  have "fst (collectSatoshi exHelpers exSource (exProps 10001) st0)
     = Inl (TxBuildError INSUFFICIENT_UTXO (ExpectedActual 10001 10000))"
    by (rule collectSatoshi_insufficient [THEN conjunct1, THEN iffD2])
       (simp add: a fields)
  moreover have "fst (collectSatoshi exHelpers exSource (exProps 10000) st0)
     = Inr \<lparr>utxos = ?all, satoshi = 10000, exceedSatoshi = 10000 - targetAmount (exProps 10000)\<rparr>"
    by (rule collectSatoshi_insufficient [THEN conjunct2, THEN conjunct2, rule_format])
       (simp add: b fields)
  moreover have "fst (collectSatoshi exHelpers exSource (exProps 10001\<lparr>allowInsufficient := Some True\<rparr>) st0)
     = Inr \<lparr>utxos = ?all, satoshi = 10000,
            exceedSatoshi = 10000 - targetAmount (exProps 10001\<lparr>allowInsufficient := Some True\<rparr>)\<rparr>"
    by (rule collectSatoshi_insufficient [THEN conjunct2, THEN conjunct2, rule_format])
       (simp add: c)
  ultimately show ?thesis by (simp add: fields)
qed

text \<open>
  Claim C4. No output of the selection has the \<open>txid\<close> and the \<open>vout\<close> of an entry of the
  exclusion list, wherever the candidate stands in the list.
\<close>

theorem collectSatoshi_excluded:
  assumes "collectSatoshi h ds p st = (Inr res, st')"
    and "excludeUtxos p = Some excluding"
    and "exclude \<in> set excluding"
  shows "\<forall>utxo\<in>set (utxos res). \<not> (txid exclude = txid utxo \<and> vout exclude = vout utxo)"
proof
  fix utxo assume in_res: "utxo \<in> set (utxos res)"
  from assms(1) have acc: "accumulate h ds p st = (Inr (utxos res, satoshi res), st')"
    by (simp add: collectSatoshi_Inr)
  from accumulate_selection [OF acc] obtain candidates
    where "utxos res = firstReaching (targetAmount p) 0 (filter (selectable p st') candidates)"
    by blast
  then have "set (utxos res) \<subseteq> set (filter (selectable p st') candidates)"
    using firstReaching_prefix [of "targetAmount p" 0] by (metis set_mono_prefix)
  with in_res have "selectable p st' utxo" by auto
  then have "\<not> isExcluded excluding utxo"
    using assms(2) by (simp add: selectable_def keptBy_def)
  with assms(3) show "\<not> (txid exclude = txid utxo \<and> vout exclude = vout utxo)"
    by (auto simp: isExcluded_def)
qed

text \<open>
  Excluding \<open>(c, 0)\<close> removes the first candidate; excluding \<open>(c, 1)\<close> removes nothing,
  since the match is on both fields.
\<close>

theorem collectSatoshi_excluded_witness:
  "fst (collectSatoshi exHelpers exSource
          (exProps 6000\<lparr>excludeUtxos := Some [\<lparr>txid = ''c'', vout = 0\<rparr>]\<rparr>) st0)
     = Inr \<lparr>utxos = [exUtxo ''a'' 0 5000, exUtxo ''b'' 1 3000], satoshi = 8000, exceedSatoshi = 2000\<rparr>
   \<and> exUtxo ''c'' 0 2000 \<notin> set [exUtxo ''a'' 0 5000, exUtxo ''b'' 1 3000]
   \<and> fst (collectSatoshi exHelpers exSource
          (exProps 6000\<lparr>excludeUtxos := Some [\<lparr>txid = ''c'', vout = 1\<rparr>]\<rparr>) st0)
     = Inr \<lparr>utxos = [exUtxo ''c'' 0 2000, exUtxo ''a'' 0 5000], satoshi = 7000, exceedSatoshi = 1000\<rparr>"
proof -
  let ?p = "exProps 6000\<lparr>excludeUtxos := Some [\<lparr>txid = ''c'', vout = 0\<rparr>]\<rparr>"
  let ?res = "\<lparr>utxos = [exUtxo ''a'' 0 5000, exUtxo ''b'' 1 3000], satoshi = 8000, exceedSatoshi = 2000\<rparr>"
  have a: "fst (collectSatoshi exHelpers exSource ?p st0) = Inr ?res"
    by (simp add: selection_defs)
  then have run: "collectSatoshi exHelpers exSource ?p st0
      = (Inr ?res, snd (collectSatoshi exHelpers exSource ?p st0))"
    by (metis prod.collapse)
  have b: "excludeUtxos ?p = Some [\<lparr>txid = ''c'', vout = 0\<rparr>]"
    by (simp add: exProps_def)
  have c: "\<lparr>txid = ''c'', vout = 0\<rparr> \<in> set [\<lparr>txid = ''c'', vout = 0\<rparr>]"
    by simp
  have d: "exUtxo ''c'' 0 2000 \<notin> set [exUtxo ''a'' 0 5000, exUtxo ''b'' 1 3000]"
    using collectSatoshi_excluded [OF run b c] by (auto simp: exUtxo_def)
  have e: "fst (collectSatoshi exHelpers exSource
          (exProps 6000\<lparr>excludeUtxos := Some [\<lparr>txid = ''c'', vout = 1\<rparr>]\<rparr>) st0)
     = Inr \<lparr>utxos = [exUtxo ''c'' 0 2000, exUtxo ''a'' 0 5000], satoshi = 7000, exceedSatoshi = 1000\<rparr>"
    by (simp add: selection_defs)
  from a d e show ?thesis by simp
qed

text \<open>
  Claim C5. With \<open>onlyNonRgbppUtxos\<close> set, the lookup of every selected output, resolved
  through the cache under the key \<open>txid:vout\<close>, is "no assets"; a candidate whose lookup
  is "has assets" is not in the selection. If moreover the service answers every lookup
  of an output with the same list, and the cache agrees with these answers when the call
  starts, then no selected output has a binding list that is not empty.
\<close>

theorem collectSatoshi_no_assets:
  assumes "collectSatoshi h ds p st = (Inr res, st')"
    and "truthy (onlyNonRgbppUtxos p)"
  shows "(\<forall>utxo\<in>set (utxos res). cachedHasRgbppAssets st' (hasRgbppAssetsKey utxo) = Some False)
       \<and> (\<forall>candidate. cachedHasRgbppAssets st' (hasRgbppAssetsKey candidate) = Some True
             \<longrightarrow> candidate \<notin> set (utxos res))
       \<and> ((\<forall>t v w. fst (getRgbppAssetsByBtcUtxo (service ds) t v w) = Inr (bindings t v))
            \<and> lookupsAgree bindings st
           \<longrightarrow> (\<forall>utxo\<in>set (utxos res). \<not> hasBindings (bindings (txid utxo) (vout utxo))))"
proof -
  from assms(1) have acc: "accumulate h ds p st = (Inr (utxos res, satoshi res), st')"
    by (simp add: collectSatoshi_Inr)
  then obtain candidates st1 where
    cands: "collectCandidates h ds p st = (Inr candidates, st1)" and
    loop: "collectLoop ds (targetAmount p) (case excludeUtxos p of None \<Rightarrow> [] | Some es \<Rightarrow> es)
       (onlyNonRgbppUtxos p) candidates [] 0 st1 = (Inr (utxos res, satoshi res), st')"
    by (auto simp: accumulate_def split: prod.splits sum.splits)
  from collectLoop_looked_up [OF loop assms(2)]
  have looked: "\<forall>utxo\<in>set (utxos res). cachedHasRgbppAssets st' (hasRgbppAssetsKey utxo) = Some False"
    by simp
  have "\<forall>utxo\<in>set (utxos res). \<not> hasBindings (bindings (txid utxo) (vout utxo))"
    if pure: "\<forall>t v w. fst (getRgbppAssetsByBtcUtxo (service ds) t v w) = Inr (bindings t v)"
      and agree: "lookupsAgree bindings st"
  proof
    fix utxo assume "utxo \<in> set (utxos res)"
    with looked have entry: "cachedHasRgbppAssets st' (hasRgbppAssetsKey utxo) = Some False"
      by blast
    from cands collectCandidates_lookups [of h ds p st]
    have "cachedHasRgbppAssets st1 = cachedHasRgbppAssets st" by simp
    with agree have "lookupsAgree bindings st1" by (simp add: lookupsAgree_def)
    with pure loop have "lookupsAgree bindings st'" by (rule collectLoop_agree)
    with entry show "\<not> hasBindings (bindings (txid utxo) (vout utxo))"
      unfolding lookupsAgree_def hasRgbppAssetsKey_def by blast
  qed
  with looked show ?thesis by fastforce
qed

text \<open>
  The output \<open>c:0\<close> carries a binding and is skipped.
\<close>

theorem collectSatoshi_no_assets_witness:
  "fst (collectSatoshi exHelpers exSource (exProps 6000\<lparr>onlyNonRgbppUtxos := Some True\<rparr>) st0)
     = Inr \<lparr>utxos = [exUtxo ''a'' 0 5000, exUtxo ''b'' 1 3000], satoshi = 8000, exceedSatoshi = 2000\<rparr>
   \<and> cachedHasRgbppAssets
        (snd (collectSatoshi exHelpers exSource (exProps 6000\<lparr>onlyNonRgbppUtxos := Some True\<rparr>) st0))
        ''c:0'' = Some True
   \<and> exUtxo ''c'' 0 2000 \<notin> set [exUtxo ''a'' 0 5000, exUtxo ''b'' 1 3000]
   \<and> cachedHasRgbppAssets
        (snd (collectSatoshi exHelpers exSource (exProps 6000\<lparr>onlyNonRgbppUtxos := Some True\<rparr>) st0))
        ''a:0'' = Some False
   \<and> hasBindings (exBindings ''c'' 0)
   \<and> \<not> hasBindings (exBindings ''a'' 0) \<and> \<not> hasBindings (exBindings ''b'' 1)"
proof -
  let ?p = "exProps 6000\<lparr>onlyNonRgbppUtxos := Some True\<rparr>"
  let ?res = "\<lparr>utxos = [exUtxo ''a'' 0 5000, exUtxo ''b'' 1 3000], satoshi = 8000, exceedSatoshi = 2000\<rparr>"
  let ?st = "snd (collectSatoshi exHelpers exSource ?p st0)"
  have a: "fst (collectSatoshi exHelpers exSource ?p st0) = Inr ?res"
    by (simp add: selection_defs numberToString_digit)
  then have run: "collectSatoshi exHelpers exSource ?p st0 = (Inr ?res, ?st)"
    by (metis prod.collapse)
  have b: "truthy (onlyNonRgbppUtxos ?p)"
    by (simp add: truthy_def exProps_def)
  have c: "cachedHasRgbppAssets ?st ''c:0'' = Some True"
    by (simp add: selection_defs numberToString_digit)
  have k: "hasRgbppAssetsKey (exUtxo ''c'' 0 2000) = ''c:0''"
    "hasRgbppAssetsKey (exUtxo ''a'' 0 5000) = ''a:0''"
    by (simp_all add: hasRgbppAssetsKey_def exUtxo_def numberToString_digit)
  have pure: "\<forall>t v w. fst (getRgbppAssetsByBtcUtxo (service exSource) t v w) = Inr (exBindings t v)"
    by (simp add: exSource_def exService_def exBindings_def)
  have agree: "lookupsAgree exBindings st0"
    by (simp add: lookupsAgree_def st0_def)
  note inst = collectSatoshi_no_assets [OF run b, of exBindings]
  from inst [THEN conjunct2, THEN conjunct1, rule_format, of "exUtxo ''c'' 0 2000"] c k
  have "exUtxo ''c'' 0 2000 \<notin> set [exUtxo ''a'' 0 5000, exUtxo ''b'' 1 3000]"
    by simp
  moreover from inst [THEN conjunct1] k
  have "cachedHasRgbppAssets ?st ''a:0'' = Some False"
    by simp
  moreover from inst [THEN conjunct2, THEN conjunct2, THEN mp, OF conjI, OF pure agree]
  have "\<not> hasBindings (exBindings ''a'' 0) \<and> \<not> hasBindings (exBindings ''b'' 1)"
    by (simp add: exUtxo_def)
  moreover have "hasBindings (exBindings ''c'' 0)"
    by (simp add: hasBindings_def exBindings_def)
  ultimately show ?thesis using a c by simp
qed

section \<open>Properties of the cache\<close>

subsection \<open>The two models of a call agree\<close>

lemma getUtxos_send_resume:
  "getUtxos h ds addr params r = resumeGetUtxos h ds addr params (sendGetBtcUtxos addr params r)"
  by (simp add: getUtxos_def callGetBtcUtxos_def resumeGetUtxos_def sendGetBtcUtxos_def
           split: prod.splits sum.splits)

lemma collectSatoshi_selectFrom:
  "collectSatoshi h ds p st =
     (case collectCandidates h ds p st of
        (Inl e, st1) \<Rightarrow> (Inl e, st1)
      | (Inr candidates, st1) \<Rightarrow> selectFrom ds p candidates st1)"
  by (simp add: collectSatoshi_def accumulate_def selectFrom_def split: prod.splits sum.splits)

lemma resumeGetUtxos_calls:
  "resumeGetUtxos h ds addr params r = (res, r1) \<Longrightarrow> calls r1 = calls r"
  by (auto simp: resumeGetUtxos_def split: prod.splits sum.splits)

lemma optionalCacheHasRgbppAssets_utxos:
  "optionalCacheHasRgbppAssets key g st = (res, st1) \<Longrightarrow> cachedUtxos st1 = cachedUtxos st"
  by (auto simp: optionalCacheHasRgbppAssets_def split: option.splits prod.splits sum.splits)

lemma hasRgbppAssetsGetter_listing:
  "hasRgbppAssetsGetter ds u r = (res, r1) \<Longrightarrow> filter isListing (calls r1) = filter isListing (calls r)"
  by (auto simp: hasRgbppAssetsGetter_def callGetRgbppAssetsByBtcUtxo_def isListing_def
           split: prod.splits sum.splits)

lemma optionalCacheHasRgbppAssets_listing:
  "optionalCacheHasRgbppAssets key (hasRgbppAssetsGetter ds u) st = (res, st1)
     \<Longrightarrow> listingCalls st1 = listingCalls st"
  by (auto simp: optionalCacheHasRgbppAssets_def listingCalls_def
           split: option.splits prod.splits sum.splits dest: hasRgbppAssetsGetter_listing)

lemma collectLoop_first_cache:
  "collectLoop ds target excluding onr cands collected amt st = (res, st')
     \<Longrightarrow> cachedUtxos st' = cachedUtxos st \<and> listingCalls st' = listingCalls st"
proof (induction cands arbitrary: collected amt st)
  case Nil
  then show ?case by simp
next
  case (Cons u rest)
  obtain b st1 where look:
    "optionalCacheHasRgbppAssets (Some (hasRgbppAssetsKey u)) (hasRgbppAssetsGetter ds u) st = (b, st1)"
    by (cases "optionalCacheHasRgbppAssets (Some (hasRgbppAssetsKey u)) (hasRgbppAssetsGetter ds u) st")
  have same: "cachedUtxos st1 = cachedUtxos st" "listingCalls st1 = listingCalls st"
    using look by (simp_all add: optionalCacheHasRgbppAssets_utxos optionalCacheHasRgbppAssets_listing)
  show ?case
  proof (cases "amt \<ge> target")
    case True
    with Cons.prems show ?thesis by (simp add: collectLoop_step)
  next
    case below: False
    show ?thesis
    proof (cases "isExcluded excluding u")
      case True
      with below Cons.prems
      have "collectLoop ds target excluding onr rest collected amt st = (res, st')"
        by (simp add: collectLoop_step)
      then show ?thesis by (rule Cons.IH)
    next
      case notex: False
      show ?thesis
      proof (cases "truthy onr")
        case False
        with notex below Cons.prems
        have "collectLoop ds target excluding onr rest (collected @ [u]) (amt + value u) st = (res, st')"
          by (simp add: collectLoop_step)
        then show ?thesis by (rule Cons.IH)
      next
        case onr: True
        show ?thesis
        proof (cases b)
          case (Inl e)
          with look onr notex below Cons.prems have "st' = st1"
            by (simp add: collectLoop_step)
          with same show ?thesis by simp
        next
          case (Inr has)
          with look onr notex below Cons.prems
          have "\<exists>collected' amt'.
              collectLoop ds target excluding onr rest collected' amt' st1 = (res, st')"
            by (cases has) (auto simp: collectLoop_step)
          then obtain collected' amt' where
            "collectLoop ds target excluding onr rest collected' amt' st1 = (res, st')"
            by blast
          from Cons.IH [OF this] same show ?thesis by simp
        qed
      qed
    qed
  qed
qed

lemma selectFrom_first_cache:
  "selectFrom ds p v st = (res, st') \<Longrightarrow> cachedUtxos st' = cachedUtxos st \<and> listingCalls st' = listingCalls st"
  by (auto simp: selectFrom_def split: prod.splits sum.splits if_splits dest!: collectLoop_first_cache)

text \<open>
  A call that runs alone, event by event, ends with the result and in the state of
  \<open>collectSatoshi\<close>.
\<close>

lemma run_alone:
  assumes "tasks c = [Called p]" and "inFlight c = Map.empty"
  shows "(\<exists>got. tasks (run h ds [Start 0, Settle (case internalCacheKey p of None \<Rightarrow> [] | Some k \<Rightarrow> k),
                                  SettleOwn 0, Finish 0] c)
            = [Returned got (fst (collectSatoshi h ds p (shared c)))])
       \<and> shared (run h ds [Start 0, Settle (case internalCacheKey p of None \<Rightarrow> [] | Some k \<Rightarrow> k),
                            SettleOwn 0, Finish 0] c)
            = snd (collectSatoshi h ds p (shared c))"
proof (cases "internalCacheKey p")
  case None
  obtain res r1 where resume:
    "resumeGetUtxos h ds (props.address p) (listingParams p)
       (sendGetBtcUtxos (props.address p) (listingParams p) (remote (shared c))) = (res, r1)"
    by (cases "resumeGetUtxos h ds (props.address p) (listingParams p)
       (sendGetBtcUtxos (props.address p) (listingParams p) (remote (shared c)))")
  show ?thesis
  proof (cases res)
    case (Inl e)
    with None resume assms show ?thesis
      by (simp add: collectSatoshi_selectFrom collectCandidates_def optionalCacheUtxos_def
          getUtxos_send_resume start_def settle_def settleOwn_def sendListing_def
          listingParams_def [symmetric])
  next
    case (Inr v)
    with None resume assms show ?thesis
      by (simp add: collectSatoshi_selectFrom collectCandidates_def optionalCacheUtxos_def
          getUtxos_send_resume start_def settle_def settleOwn_def sendListing_def finish_def
          listingParams_def [symmetric] split: prod.splits)
  qed
next
  case (Some k)
  show ?thesis
  proof (cases "cachedUtxos (shared c) k")
    case seen: (Some v)
    with Some assms show ?thesis
      by (simp add: collectSatoshi_selectFrom collectCandidates_def optionalCacheUtxos_def
          start_def settle_def finish_def split: prod.splits)
  next
    case None
    obtain res r1 where resume:
      "resumeGetUtxos h ds (props.address p) (listingParams p)
         (sendGetBtcUtxos (props.address p) (listingParams p) (remote (shared c))) = (res, r1)"
      by (cases "resumeGetUtxos h ds (props.address p) (listingParams p)
         (sendGetBtcUtxos (props.address p) (listingParams p) (remote (shared c)))")
    show ?thesis
    proof (cases res)
      case (Inl e)
      with None Some resume assms show ?thesis
        by (simp add: collectSatoshi_selectFrom collectCandidates_def optionalCacheUtxos_def
            getUtxos_send_resume start_def settle_def sendListing_def deliver_def
            listingParams_def [symmetric])
    next
      case (Inr v)
      with None Some resume assms show ?thesis
        by (simp add: collectSatoshi_selectFrom collectCandidates_def optionalCacheUtxos_def
            getUtxos_send_resume start_def settle_def sendListing_def deliver_def finish_def
            listingParams_def [symmetric] split: prod.splits)
    qed
  qed
qed

subsection \<open>Sequential calls\<close>

lemma collectCandidates_miss:
  assumes "internalCacheKey p = Some k" and "cachedUtxos st k = None"
    and "fst (collectCandidates h ds p st) = Inr v"
  shows "cachedUtxos (snd (collectCandidates h ds p st)) k = Some v
       \<and> listingCalls (snd (collectCandidates h ds p st)) = listingCalls st + 1"
  using assms
  by (auto simp: collectCandidates_def optionalCacheUtxos_def getUtxos_send_resume
        listingCalls_def sendGetBtcUtxos_def isListing_def
        split: prod.splits sum.splits dest!: resumeGetUtxos_calls)

lemma collectCandidates_hit:
  assumes "internalCacheKey p = Some k" and "cachedUtxos st k = Some v"
  shows "collectCandidates h ds p st = (Inr v, st)"
  using assms by (simp add: collectCandidates_def optionalCacheUtxos_def)

lemma collectSatoshi_after_candidates:
  assumes "fst (collectCandidates h ds p st) = Inr v"
  shows "cachedUtxos (snd (collectSatoshi h ds p st)) = cachedUtxos (snd (collectCandidates h ds p st))
       \<and> listingCalls (snd (collectSatoshi h ds p st)) = listingCalls (snd (collectCandidates h ds p st))"
proof -
  obtain st1 where cands: "collectCandidates h ds p st = (Inr v, st1)"
    using assms by (cases "collectCandidates h ds p st") simp
  obtain res st2 where sel: "selectFrom ds p v st1 = (res, st2)"
    by (cases "selectFrom ds p v st1")
  from selectFrom_first_cache [OF sel] cands sel show ?thesis
    by (simp add: collectSatoshi_selectFrom)
qed

lemma sequential_once:
  assumes "internalCacheKey p1 = Some k" and "internalCacheKey p2 = Some k"
    and "cachedUtxos st k = None"
    and "fst (collectCandidates h ds p1 st) = Inr v"
  shows "listingCalls (snd (collectSatoshi h ds p2 (snd (collectSatoshi h ds p1 st)))) = listingCalls st + 1
       \<and> collectCandidates h ds p2 (snd (collectSatoshi h ds p1 st))
           = (Inr v, snd (collectSatoshi h ds p1 st))"
proof -
  let ?st1 = "snd (collectSatoshi h ds p1 st)"
  from collectCandidates_miss [OF assms(1,3,4)] collectSatoshi_after_candidates [OF assms(4)]
  have first: "cachedUtxos ?st1 k = Some v" "listingCalls ?st1 = listingCalls st + 1"
    by simp_all
  from collectCandidates_hit [OF assms(2) first(1)]
  have hit: "collectCandidates h ds p2 ?st1 = (Inr v, ?st1)" .
  then have "fst (collectCandidates h ds p2 ?st1) = Inr v" by simp
  from collectSatoshi_after_candidates [OF this] hit first show ?thesis by simp
qed

text \<open>
  The selection leaves the first cache and the listing calls as the fetch of the
  candidates left them, and a call whose fetch fails fails with the same error.
\<close>

lemma collectSatoshi_first_cache:
  "cachedUtxos (snd (collectSatoshi h ds p st)) = cachedUtxos (snd (collectCandidates h ds p st))
   \<and> listingCalls (snd (collectSatoshi h ds p st)) = listingCalls (snd (collectCandidates h ds p st))"
proof (cases "collectCandidates h ds p st")
  case (Pair got st1)
  show ?thesis
  proof (cases got)
    case (Inl e)
    with Pair show ?thesis by (simp add: collectSatoshi_selectFrom)
  next
    case (Inr v)
    obtain res st2 where sel: "selectFrom ds p v st1 = (res, st2)"
      by (cases "selectFrom ds p v st1")
    from selectFrom_first_cache [OF sel] Pair Inr sel show ?thesis
      by (simp add: collectSatoshi_selectFrom)
  qed
qed

lemma collectSatoshi_failed:
  "fst (collectCandidates h ds p st) = Inl e \<Longrightarrow> fst (collectSatoshi h ds p st) = Inl e"
  by (cases "collectCandidates h ds p st") (simp add: collectSatoshi_selectFrom)

subsection \<open>Calls in any order\<close>

lemma taskOk_cong:
  "inFlight c' k = inFlight c k \<Longrightarrow> cachedUtxos (shared c') k = cachedUtxos (shared c) k
     \<Longrightarrow> failedFetches c' = failedFetches c \<Longrightarrow> taskOk k c' t = taskOk k c t"
  by (simp add: taskOk_def split: task.splits option.splits)

lemma coalescedD:
  assumes "coalesced k n0 c"
  shows "\<forall>t\<in>set (tasks c). taskOk k c t"
    and "\<forall>k'. inFlight c k' \<noteq> None \<longrightarrow> k' = k"
    and "inFlight c k \<noteq> None \<longrightarrow> cachedUtxos (shared c) k = None"
    and "listingCalls (shared c)
         = n0 + failedFetches c
           + (if inFlight c k \<noteq> None \<or> cachedUtxos (shared c) k \<noteq> None then 1 else 0)"
  using assms unfolding coalesced_def by blast+

lemma coalesced_start:
  assumes inv: "coalesced k n0 c" and i: "i < length (tasks c)" and t: "tasks c ! i = Called p"
  shows "coalesced k n0 (start i p c)"
proof -
  from i t have "Called p \<in> set (tasks c)" by (metis nth_mem)
  with inv have key: "internalCacheKey p = Some k"
    by (auto simp: coalesced_def taskOk_def)
  note ok = coalescedD(1) [OF inv] and only = coalescedD(2) [OF inv]
    and excl = coalescedD(3) [OF inv] and count = coalescedD(4) [OF inv]
  show ?thesis
  proof (cases "cachedUtxos (shared c) k")
    case (Some v)
    let ?c = "c\<lparr>tasks := (tasks c)[i := Selecting p v]\<rparr>"
    have "taskOk k ?c t'" if "t' \<in> set (tasks ?c)" for t'
    proof -
      from that have "t' = Selecting p v \<or> t' \<in> set (tasks c)"
        using set_update_subset_insert [of "tasks c" i "Selecting p v"] by auto
      then show ?thesis using ok Some by (auto simp: taskOk_def split: task.splits option.splits)
    qed
    then have tasks_ok: "\<forall>t\<in>set (tasks ?c). taskOk k ?c t" by blast
    have eq: "start i p c = ?c"
      using Some key by (simp add: start_def)
    show ?thesis
      unfolding eq coalesced_def
    proof (intro conjI)
      show "\<forall>k'. inFlight ?c k' \<noteq> None \<longrightarrow> k' = k" using only by simp
      show "inFlight ?c k \<noteq> None \<longrightarrow> cachedUtxos (shared ?c) k = None" using excl by simp
      show "listingCalls (shared ?c) = n0 + failedFetches ?c
           + (if inFlight ?c k \<noteq> None \<or> cachedUtxos (shared ?c) k \<noteq> None then 1 else 0)"
        using count by simp
      show "\<forall>t\<in>set (tasks ?c). taskOk k ?c t" by (rule tasks_ok)
    qed
  next
    case None
    show ?thesis
    proof (cases "inFlight c k")
      case (Some request)
      let ?c = "c\<lparr>tasks := (tasks c)[i := AwaitingShared p k]\<rparr>"
      have "taskOk k ?c t'" if "t' \<in> set (tasks ?c)" for t'
      proof -
        from that have "t' = AwaitingShared p k \<or> t' \<in> set (tasks c)"
          using set_update_subset_insert [of "tasks c" i "AwaitingShared p k"] by auto
        then show ?thesis using ok Some by (auto simp: taskOk_def split: task.splits option.splits)
      qed
      then have tasks_ok: "\<forall>t\<in>set (tasks ?c). taskOk k ?c t" by blast
      have eq: "start i p c = ?c"
        using Some None key by (simp add: start_def)
      show ?thesis
        unfolding eq coalesced_def
      proof (intro conjI)
        show "\<forall>k'. inFlight ?c k' \<noteq> None \<longrightarrow> k' = k" using only by simp
        show "inFlight ?c k \<noteq> None \<longrightarrow> cachedUtxos (shared ?c) k = None" using excl by simp
        show "listingCalls (shared ?c) = n0 + failedFetches ?c
             + (if inFlight ?c k \<noteq> None \<or> cachedUtxos (shared ?c) k \<noteq> None then 1 else 0)"
          using count by simp
        show "\<forall>t\<in>set (tasks ?c). taskOk k ?c t" by (rule tasks_ok)
      qed
    next
      case noflight: None
      let ?c = "c\<lparr>tasks := (tasks c)[i := AwaitingShared p k],
                   inFlight := (inFlight c)(k \<mapsto> (props.address p, listingParams p)),
                   shared := sendListing p (shared c)\<rparr>"
      have cache: "cachedUtxos (sendListing p (shared c)) = cachedUtxos (shared c)"
        by (simp add: sendListing_def)
      have more: "listingCalls (sendListing p (shared c)) = Suc (listingCalls (shared c))"
        by (simp add: sendListing_def sendGetBtcUtxos_def listingCalls_def isListing_def)
      have "taskOk k ?c t'" if "t' \<in> set (tasks ?c)" for t'
      proof -
        from that have "t' = AwaitingShared p k \<or> t' \<in> set (tasks c)"
          using set_update_subset_insert [of "tasks c" i "AwaitingShared p k"] by auto
        then show ?thesis using ok cache
          by (auto simp: taskOk_def split: task.splits option.splits)
      qed
      then have tasks_ok: "\<forall>t\<in>set (tasks ?c). taskOk k ?c t" by blast
      have eq: "start i p c = ?c"
        using noflight None key by (simp add: start_def)
      show ?thesis
        unfolding eq coalesced_def
      proof (intro conjI)
        show "\<forall>k'. inFlight ?c k' \<noteq> None \<longrightarrow> k' = k" using only by simp
        show "inFlight ?c k \<noteq> None \<longrightarrow> cachedUtxos (shared ?c) k = None"
          using None cache by simp
        show "listingCalls (shared ?c) = n0 + failedFetches ?c
             + (if inFlight ?c k \<noteq> None \<or> cachedUtxos (shared ?c) k \<noteq> None then 1 else 0)"
          using count noflight None more by simp
        show "\<forall>t\<in>set (tasks ?c). taskOk k ?c t" by (rule tasks_ok)
      qed
    qed
  qed
qed

lemma coalesced_settle:
  assumes inv: "coalesced k n0 c"
  shows "coalesced k n0 (settle h ds k' c)"
proof (cases "inFlight c k'")
  case None
  with inv show ?thesis by (simp add: settle_def)
next
  case (Some request)
  obtain addr params where request: "request = (addr, params)" by (cases request)
  note ok = coalescedD(1) [OF inv] and only = coalescedD(2) [OF inv]
    and excl = coalescedD(3) [OF inv] and count = coalescedD(4) [OF inv]
  from only Some have k': "k' = k" by auto
  with Some excl have unseen: "cachedUtxos (shared c) k = None" by simp
  obtain res r1 where resume: "resumeGetUtxos h ds addr params (remote (shared c)) = (res, r1)"
    by (cases "resumeGetUtxos h ds addr params (remote (shared c))")
  then have same: "calls r1 = calls (remote (shared c))"
    by (rule resumeGetUtxos_calls)
  show ?thesis
  proof (cases res)
    case (Inl e)
    let ?c = "c\<lparr>tasks := map (deliver k (Inl e)) (tasks c),
                 inFlight := (inFlight c)(k := None),
                 shared := (shared c)\<lparr>remote := r1\<rparr>,
                 failedFetches := Suc (failedFetches c)\<rparr>"
    have step: "settle h ds k' c = ?c"
      using Some request resume Inl k' by (simp add: settle_def)
    have "taskOk k ?c (deliver k (Inl e) t)" if "t \<in> set (tasks c)" for t
      using ok that unseen
      by (cases t) (auto simp: taskOk_def deliver_def split: option.splits)
    then have tasks_ok: "\<forall>t\<in>set (tasks ?c). taskOk k ?c t" by simp
    have calls_same: "listingCalls (shared ?c) = listingCalls (shared c)"
      using same by (simp add: listingCalls_def)
    have was: "inFlight c k \<noteq> None" using Some k' by simp
    show ?thesis
      unfolding step coalesced_def
    proof (intro conjI)
      show "\<forall>k'. inFlight ?c k' \<noteq> None \<longrightarrow> k' = k" using only by simp
      show "inFlight ?c k \<noteq> None \<longrightarrow> cachedUtxos (shared ?c) k = None" by simp
      show "listingCalls (shared ?c) = n0 + failedFetches ?c
           + (if inFlight ?c k \<noteq> None \<or> cachedUtxos (shared ?c) k \<noteq> None then 1 else 0)"
        unfolding calls_same using count unseen was by simp
      show "\<forall>t\<in>set (tasks ?c). taskOk k ?c t" by (rule tasks_ok)
    qed
  next
    case (Inr v)
    let ?c = "c\<lparr>tasks := map (deliver k (Inr v)) (tasks c),
                 inFlight := (inFlight c)(k := None),
                 shared := (shared c)\<lparr>remote := r1, cachedUtxos := (cachedUtxos (shared c))(k \<mapsto> v)\<rparr>\<rparr>"
    have step: "settle h ds k' c = ?c"
      using Some request resume Inr k' by (simp add: settle_def)
    have "taskOk k ?c (deliver k (Inr v) t)" if "t \<in> set (tasks c)" for t
      using ok that unseen
      by (cases t) (auto simp: taskOk_def deliver_def split: option.splits)
    then have tasks_ok: "\<forall>t\<in>set (tasks ?c). taskOk k ?c t" by simp
    have calls_same: "listingCalls (shared ?c) = listingCalls (shared c)"
      using same by (simp add: listingCalls_def)
    have was: "inFlight c k \<noteq> None" using Some k' by simp
    show ?thesis
      unfolding step coalesced_def
    proof (intro conjI)
      show "\<forall>k'. inFlight ?c k' \<noteq> None \<longrightarrow> k' = k" using only by simp
      show "inFlight ?c k \<noteq> None \<longrightarrow> cachedUtxos (shared ?c) k = None" by simp
      show "listingCalls (shared ?c) = n0 + failedFetches ?c
           + (if inFlight ?c k \<noteq> None \<or> cachedUtxos (shared ?c) k \<noteq> None then 1 else 0)"
        unfolding calls_same using count unseen was by simp
      show "\<forall>t\<in>set (tasks ?c). taskOk k ?c t" by (rule tasks_ok)
    qed
  qed
qed

lemma coalesced_finish:
  assumes inv: "coalesced k n0 c" and i: "i < length (tasks c)" and t: "tasks c ! i = Selecting p v"
  shows "coalesced k n0 (finish ds i p v c)"
proof -
  note ok = coalescedD(1) [OF inv] and only = coalescedD(2) [OF inv]
    and excl = coalescedD(3) [OF inv] and count = coalescedD(4) [OF inv]
  from i t have "Selecting p v \<in> set (tasks c)" by (metis nth_mem)
  with ok have got: "cachedUtxos (shared c) k = Some v"
    by (auto simp: taskOk_def)
  obtain res st' where sel: "selectFrom ds p v (shared c) = (res, st')"
    by (cases "selectFrom ds p v (shared c)")
  then have same: "cachedUtxos st' = cachedUtxos (shared c)" "listingCalls st' = listingCalls (shared c)"
    by (simp_all add: selectFrom_first_cache)
  let ?c = "c\<lparr>tasks := (tasks c)[i := Returned (Some v) res], shared := st'\<rparr>"
  have step: "finish ds i p v c = ?c"
    using sel by (simp add: finish_def)
  have "taskOk k ?c t'" if "t' \<in> set (tasks ?c)" for t'
  proof -
    from that have "t' = Returned (Some v) res \<or> t' \<in> set (tasks c)"
      using set_update_subset_insert [of "tasks c" i "Returned (Some v) res"] by auto
    then show ?thesis using ok got same
      by (auto simp: taskOk_def split: task.splits option.splits)
  qed
  then have tasks_ok: "\<forall>t\<in>set (tasks ?c). taskOk k ?c t" by blast
  show ?thesis
    unfolding step coalesced_def
  proof (intro conjI)
    show "\<forall>k'. inFlight ?c k' \<noteq> None \<longrightarrow> k' = k" using only by simp
    show "inFlight ?c k \<noteq> None \<longrightarrow> cachedUtxos (shared ?c) k = None"
      using excl same by simp
    show "listingCalls (shared ?c) = n0 + failedFetches ?c
         + (if inFlight ?c k \<noteq> None \<or> cachedUtxos (shared ?c) k \<noteq> None then 1 else 0)"
      using count same by simp
    show "\<forall>t\<in>set (tasks ?c). taskOk k ?c t" by (rule tasks_ok)
  qed
qed

lemma coalesced_step:
  assumes inv: "coalesced k n0 c"
  shows "coalesced k n0 (step h ds e c)"
proof (cases e)
  case (Start i)
  with inv show ?thesis
    by (auto simp: coalesced_start split: task.splits)
next
  case (Settle k')
  with inv show ?thesis by (simp add: coalesced_settle)
next
  case (SettleOwn i)
  have "tasks c ! i \<noteq> AwaitingOwn p" if "i < length (tasks c)" for p
  proof
    assume "tasks c ! i = AwaitingOwn p"
    with that have "AwaitingOwn p \<in> set (tasks c)" by (metis nth_mem)
    with inv show False by (auto simp: coalesced_def taskOk_def)
  qed
  with SettleOwn inv show ?thesis
    by (auto split: task.splits)
next
  case (Finish i)
  with inv show ?thesis
    by (auto simp: coalesced_finish split: task.splits)
qed

lemma coalesced_run: "coalesced k n0 c \<Longrightarrow> coalesced k n0 (run h ds es c)"
  by (induction es arbitrary: c) (auto intro: coalesced_step)

lemma coalesced_initial:
  assumes "\<forall>t\<in>set (tasks c). \<exists>p. t = Called p \<and> internalCacheKey p = Some k"
    and "inFlight c = Map.empty"
    and "cachedUtxos (shared c) k = None"
    and "failedFetches c = 0"
  shows "coalesced k (listingCalls (shared c)) c"
  using assms by (auto simp: coalesced_def taskOk_def)

lemma run_single_flight:
  assumes "\<forall>t\<in>set (tasks c). \<exists>p. t = Called p \<and> internalCacheKey p = Some k"
    and "inFlight c = Map.empty"
    and "cachedUtxos (shared c) k = None"
    and "failedFetches c = 0"
    and "c' = run h ds schedule c"
  shows "listingCalls (shared c') \<le> listingCalls (shared c) + failedFetches c' + 1
    \<and> (failedFetches c' = 0 \<and> (\<exists>t\<in>set (tasks c'). \<not> notStarted t)
         \<longrightarrow> listingCalls (shared c') = listingCalls (shared c) + 1)
    \<and> (\<forall>t\<in>set (tasks c'). \<forall>v. received t = Some v \<longrightarrow> cachedUtxos (shared c') k = Some v)"
proof -
  have inv: "coalesced k (listingCalls (shared c)) c'"
    unfolding assms(5) using assms(1-4) by (intro coalesced_run coalesced_initial)
  note ok = coalescedD(1) [OF inv] and count = coalescedD(4) [OF inv]
  have "listingCalls (shared c') \<le> listingCalls (shared c) + failedFetches c' + 1"
    using count by simp
  moreover have "listingCalls (shared c') = listingCalls (shared c) + 1"
    if "failedFetches c' = 0 \<and> (\<exists>t\<in>set (tasks c'). \<not> notStarted t)"
  proof -
    from that obtain t where t: "t \<in> set (tasks c')" "\<not> notStarted t" by blast
    with ok have "taskOk k c' t" by blast
    with t(2) that have "inFlight c' k \<noteq> None \<or> cachedUtxos (shared c') k \<noteq> None"
      by (auto simp: taskOk_def notStarted_def split: task.splits option.splits)
    with count that show ?thesis by simp
  qed
  moreover have "cachedUtxos (shared c') k = Some v"
    if "t \<in> set (tasks c')" "received t = Some v" for t v
  proof -
    from ok that have "taskOk k c' t" by blast
    with that(2) show ?thesis
      by (auto simp: taskOk_def received_def split: task.splits option.splits)
  qed
  ultimately show ?thesis by blast
qed

subsection \<open>The example data sources\<close>

lemma resumeGetUtxos_exSource:
  "resumeGetUtxos exHelpers exSource ''bc1q'' params r
     = (Inr [exUtxo ''c'' 0 2000, exUtxo ''a'' 0 5000, exUtxo ''b'' 1 3000], r\<lparr>world := ()\<rparr>)"
  by (simp add: resumeGetUtxos_def exSource_def exService_def exHelpers_def
      exRows_def exRow_def exStatus_def exUtxo_def sortBy_def compareFn_def)

lemma getUtxos_flakySource:
  "getUtxos exHelpers flakySource ''bc1q'' params r
     = (if world r = 0 then Inl (Thrown ''timeout'')
        else Inr [exUtxo ''c'' 0 2000, exUtxo ''a'' 0 5000, exUtxo ''b'' 1 3000],
        \<lparr>world = Suc (world r), calls = calls r @ [GetBtcUtxos ''bc1q'' params]\<rparr>)"
  by (simp add: getUtxos_def callGetBtcUtxos_def flakySource_def flakyService_def exHelpers_def
      exRows_def exRow_def exStatus_def exUtxo_def sortBy_def compareFn_def)

lemma selectFrom_example:
  "fst (selectFrom ds (keyedProps 6000) [exUtxo ''c'' 0 2000, exUtxo ''a'' 0 5000, exUtxo ''b'' 1 3000] st)
     = Inr \<lparr>utxos = [exUtxo ''c'' 0 2000, exUtxo ''a'' 0 5000], satoshi = 7000, exceedSatoshi = 1000\<rparr>"
  "snd (selectFrom ds (keyedProps 6000) [exUtxo ''c'' 0 2000, exUtxo ''a'' 0 5000, exUtxo ''b'' 1 3000] st)
     = st"
  "fst (selectFrom ds (keyedProps 7500) [exUtxo ''c'' 0 2000, exUtxo ''a'' 0 5000, exUtxo ''b'' 1 3000] st)
     = Inr \<lparr>utxos = [exUtxo ''c'' 0 2000, exUtxo ''a'' 0 5000, exUtxo ''b'' 1 3000],
            satoshi = 10000, exceedSatoshi = 2500\<rparr>"
  "snd (selectFrom ds (keyedProps 7500) [exUtxo ''c'' 0 2000, exUtxo ''a'' 0 5000, exUtxo ''b'' 1 3000] st)
     = st"
  by (simp_all add: selectFrom_def keyedProps_def exProps_def collectLoop_step isExcluded_def
      truthy_def exUtxo_def)

lemma tasks_run_twoCalls:
  "tasks (run exHelpers exSource [Start 0, Start 1, Settle ''k'', Finish 1, Finish 0] twoCalls)
     = [Returned (Some [exUtxo ''c'' 0 2000, exUtxo ''a'' 0 5000, exUtxo ''b'' 1 3000])
          (Inr \<lparr>utxos = [exUtxo ''c'' 0 2000, exUtxo ''a'' 0 5000],
                 satoshi = 7000, exceedSatoshi = 1000\<rparr>),
        Returned (Some [exUtxo ''c'' 0 2000, exUtxo ''a'' 0 5000, exUtxo ''b'' 1 3000])
          (Inr \<lparr>utxos = [exUtxo ''c'' 0 2000, exUtxo ''a'' 0 5000, exUtxo ''b'' 1 3000],
                 satoshi = 10000, exceedSatoshi = 2500\<rparr>)]"
  "failedFetches (run exHelpers exSource [Start 0, Start 1, Settle ''k'', Finish 1, Finish 0] twoCalls) = 0"
  by (simp_all add: twoCalls_def start_def settle_def finish_def deliver_def sendListing_def
      resumeGetUtxos_exSource st0_def split_beta selectFrom_example
      keyedProps_def [of 6000, THEN arg_cong [where f = internalCacheKey]]
      keyedProps_def [of 7500, THEN arg_cong [where f = internalCacheKey]]
      keyedProps_def [of 6000, THEN arg_cong [where f = props.address]]
      keyedProps_def [of 7500, THEN arg_cong [where f = props.address]]
      exProps_def)

lemma resumeGetUtxos_flakySource:
  "resumeGetUtxos exHelpers flakySource ''bc1q'' params r
     = (if world r = 0 then Inl (Thrown ''timeout'')
        else Inr [exUtxo ''c'' 0 2000, exUtxo ''a'' 0 5000, exUtxo ''b'' 1 3000],
        r\<lparr>world := Suc (world r)\<rparr>)"
  by (simp add: resumeGetUtxos_def flakySource_def flakyService_def exHelpers_def
      exRows_def exRow_def exStatus_def exUtxo_def sortBy_def compareFn_def)

lemma keyedProps_fields:
  "internalCacheKey (keyedProps t) = Some ''k''" "props.address (keyedProps t) = ''bc1q''"
  by (simp_all add: keyedProps_def exProps_def)

subsection \<open>The claim on the cached fetch\<close>

text \<open>
  Claim C2, as stated, fails: the first listing of the example service fails, the failure
  is not stored, and the second of two sequential calls with the same key calls the
  remote listing again. The log holds two listing calls.
\<close>

theorem collectSatoshi_single_flight_counterexample:
  "internalCacheKey (keyedProps 6000) = Some ''k''
   \<and> cachedUtxos flakySt0 ''k'' = None
   \<and> fst (collectSatoshi exHelpers flakySource (keyedProps 6000) flakySt0) = Inl (Thrown ''timeout'')
   \<and> fst (collectSatoshi exHelpers flakySource (keyedProps 6000)
            (snd (collectSatoshi exHelpers flakySource (keyedProps 6000) flakySt0)))
       = Inr \<lparr>utxos = [exUtxo ''c'' 0 2000, exUtxo ''a'' 0 5000], satoshi = 7000, exceedSatoshi = 1000\<rparr>
   \<and> calls (remote (snd (collectSatoshi exHelpers flakySource (keyedProps 6000)
            (snd (collectSatoshi exHelpers flakySource (keyedProps 6000) flakySt0)))))
       = [GetBtcUtxos ''bc1q'' (listingParams (keyedProps 6000)),
          GetBtcUtxos ''bc1q'' (listingParams (keyedProps 6000))]
   \<and> listingCalls (snd (collectSatoshi exHelpers flakySource (keyedProps 6000)
            (snd (collectSatoshi exHelpers flakySource (keyedProps 6000) flakySt0)))) = 2"
proof -
  have first: "collectSatoshi exHelpers flakySource (keyedProps 6000) flakySt0
      = (Inl (Thrown ''timeout''),
         flakySt0\<lparr>remote := \<lparr>world = Suc 0, calls = [GetBtcUtxos ''bc1q'' (listingParams (keyedProps 6000))]\<rparr>\<rparr>)"
    by (simp add: collectSatoshi_selectFrom collectCandidates_def optionalCacheUtxos_def
        getUtxos_flakySource keyedProps_def exProps_def flakySt0_def listingParams_def)
  have second: "collectCandidates exHelpers flakySource (keyedProps 6000)
       (flakySt0\<lparr>remote := \<lparr>world = Suc 0, calls = [GetBtcUtxos ''bc1q'' (listingParams (keyedProps 6000))]\<rparr>\<rparr>)
      = (Inr [exUtxo ''c'' 0 2000, exUtxo ''a'' 0 5000, exUtxo ''b'' 1 3000],
         flakySt0\<lparr>remote := \<lparr>world = Suc (Suc 0), calls = [GetBtcUtxos ''bc1q'' (listingParams (keyedProps 6000)),
                                  GetBtcUtxos ''bc1q'' (listingParams (keyedProps 6000))]\<rparr>,
                  cachedUtxos := [''k'' \<mapsto> [exUtxo ''c'' 0 2000, exUtxo ''a'' 0 5000, exUtxo ''b'' 1 3000]]\<rparr>)"
    by (simp add: collectCandidates_def optionalCacheUtxos_def
        getUtxos_flakySource keyedProps_def exProps_def flakySt0_def listingParams_def)
  show ?thesis
    unfolding first
    by (simp add: collectSatoshi_selectFrom second selectFrom_example listingCalls_def isListing_def)
       (simp add: keyedProps_def exProps_def flakySt0_def)
qed

text \<open>
  Claim C2, amended. For a key \<open>k\<close> that is not stored: if the fetch of the first of two
  sequential calls with key \<open>k\<close> succeeds, the two calls together call the remote listing
  once and the second call gets the candidates of the first; if it fails, the first call
  fails with that error, nothing is stored under \<open>k\<close>, and the second call calls the
  listing again, two calls in all. For any number of calls with key \<open>k\<close> and any
  schedule, sequential or overlapping: the remote listing has been called once for each
  fetch that has failed, and once more if a fetch is in flight or its value stored, so
  exactly once as soon as a call has started and no fetch has failed; every call that
  has received candidates has received the value stored under \<open>k\<close>; a fetch that fails
  leaves \<open>k\<close> neither stored nor in flight; and a call that starts while \<open>k\<close> is neither
  stored nor in flight calls the listing again.
\<close>

theorem collectSatoshi_single_flight:
  "(internalCacheKey p1 = Some k \<and> internalCacheKey p2 = Some k \<and> cachedUtxos st k = None
      \<and> fst (collectCandidates h ds p1 st) = Inr v
    \<longrightarrow> listingCalls (snd (collectSatoshi h ds p2 (snd (collectSatoshi h ds p1 st))))
          = listingCalls st + 1
        \<and> collectCandidates h ds p2 (snd (collectSatoshi h ds p1 st))
          = (Inr v, snd (collectSatoshi h ds p1 st)))
   \<and> (internalCacheKey p1 = Some k \<and> internalCacheKey p2 = Some k \<and> cachedUtxos st k = None
      \<and> fst (collectCandidates h ds p1 st) = Inl e
    \<longrightarrow> fst (collectSatoshi h ds p1 st) = Inl e
        \<and> cachedUtxos (snd (collectSatoshi h ds p1 st)) k = None
        \<and> listingCalls (snd (collectSatoshi h ds p1 st)) = listingCalls st + 1
        \<and> listingCalls (snd (collectSatoshi h ds p2 (snd (collectSatoshi h ds p1 st))))
          = listingCalls st + 2)
   \<and> ((\<forall>t\<in>set (tasks c). \<exists>p. t = Called p \<and> internalCacheKey p = Some k)
      \<and> inFlight c = Map.empty \<and> cachedUtxos (shared c) k = None \<and> failedFetches c = 0
    \<longrightarrow> listingCalls (shared (run h ds schedule c))
          \<le> listingCalls (shared c) + failedFetches (run h ds schedule c) + 1
        \<and> (failedFetches (run h ds schedule c) = 0
             \<and> (\<exists>t\<in>set (tasks (run h ds schedule c)). \<not> notStarted t)
           \<longrightarrow> listingCalls (shared (run h ds schedule c)) = listingCalls (shared c) + 1)
        \<and> (\<forall>t\<in>set (tasks (run h ds schedule c)). \<forall>got. received t = Some got
             \<longrightarrow> cachedUtxos (shared (run h ds schedule c)) k = Some got)
        \<and> listingCalls (shared (run h ds schedule c))
            = listingCalls (shared c) + failedFetches (run h ds schedule c)
              + (if inFlight (run h ds schedule c) k \<noteq> None
                    \<or> cachedUtxos (shared (run h ds schedule c)) k \<noteq> None then 1 else 0)
        \<and> (\<forall>i. i < length (tasks (run h ds schedule c))
                 \<and> notStarted (tasks (run h ds schedule c) ! i)
                 \<and> inFlight (run h ds schedule c) k = None
                 \<and> cachedUtxos (shared (run h ds schedule c)) k = None
             \<longrightarrow> listingCalls (shared (step h ds (Start i) (run h ds schedule c)))
                   = listingCalls (shared (run h ds schedule c)) + 1)
        \<and> (\<forall>addr params failure.
               inFlight (run h ds schedule c) k = Some (addr, params)
               \<and> fst (resumeGetUtxos h ds addr params (remote (shared (run h ds schedule c))))
                   = Inl failure
             \<longrightarrow> cachedUtxos (shared (step h ds (Settle k) (run h ds schedule c))) k = None
                 \<and> inFlight (step h ds (Settle k) (run h ds schedule c)) k = None
                 \<and> failedFetches (step h ds (Settle k) (run h ds schedule c))
                     = Suc (failedFetches (run h ds schedule c))))"
proof -
  have sequential: "internalCacheKey p1 = Some k \<and> internalCacheKey p2 = Some k \<and> cachedUtxos st k = None
      \<and> fst (collectCandidates h ds p1 st) = Inr v
    \<longrightarrow> listingCalls (snd (collectSatoshi h ds p2 (snd (collectSatoshi h ds p1 st))))
          = listingCalls st + 1
        \<and> collectCandidates h ds p2 (snd (collectSatoshi h ds p1 st))
          = (Inr v, snd (collectSatoshi h ds p1 st))"
  proof (rule impI)
    assume hyp: "internalCacheKey p1 = Some k \<and> internalCacheKey p2 = Some k \<and> cachedUtxos st k = None
      \<and> fst (collectCandidates h ds p1 st) = Inr v"
    then have a: "internalCacheKey p1 = Some k" and b: "internalCacheKey p2 = Some k"
      and c: "cachedUtxos st k = None" and d: "fst (collectCandidates h ds p1 st) = Inr v"
      by simp_all
    show "listingCalls (snd (collectSatoshi h ds p2 (snd (collectSatoshi h ds p1 st))))
          = listingCalls st + 1
        \<and> collectCandidates h ds p2 (snd (collectSatoshi h ds p1 st))
          = (Inr v, snd (collectSatoshi h ds p1 st))"
      by (rule sequential_once [OF a b c d])
  qed
  have retried: "internalCacheKey p1 = Some k \<and> internalCacheKey p2 = Some k \<and> cachedUtxos st k = None
      \<and> fst (collectCandidates h ds p1 st) = Inl e
    \<longrightarrow> fst (collectSatoshi h ds p1 st) = Inl e
        \<and> cachedUtxos (snd (collectSatoshi h ds p1 st)) k = None
        \<and> listingCalls (snd (collectSatoshi h ds p1 st)) = listingCalls st + 1
        \<and> listingCalls (snd (collectSatoshi h ds p2 (snd (collectSatoshi h ds p1 st))))
          = listingCalls st + 2"
  proof (rule impI)
    assume hyp: "internalCacheKey p1 = Some k \<and> internalCacheKey p2 = Some k \<and> cachedUtxos st k = None
      \<and> fst (collectCandidates h ds p1 st) = Inl e"
    then have a: "internalCacheKey p1 = Some k" and b: "internalCacheKey p2 = Some k"
      and c: "cachedUtxos st k = None" and d: "fst (collectCandidates h ds p1 st) = Inl e"
      by simp_all
    show "fst (collectSatoshi h ds p1 st) = Inl e
        \<and> cachedUtxos (snd (collectSatoshi h ds p1 st)) k = None
        \<and> listingCalls (snd (collectSatoshi h ds p1 st)) = listingCalls st + 1
        \<and> listingCalls (snd (collectSatoshi h ds p2 (snd (collectSatoshi h ds p1 st))))
          = listingCalls st + 2"
    proof -
      let ?st1 = "snd (collectSatoshi h ds p1 st)"
      have listed: "listingCalls (snd (collectCandidates h ds q s)) = listingCalls s + 1"
        if "internalCacheKey q = Some k" and "cachedUtxos s k = None" for q s
        using that
        by (auto simp: collectCandidates_def optionalCacheUtxos_def getUtxos_send_resume
              listingCalls_def sendGetBtcUtxos_def isListing_def
              split: prod.splits sum.splits dest!: resumeGetUtxos_calls)
      have unstored: "cachedUtxos (snd (collectCandidates h ds p1 st)) = cachedUtxos st"
        using a c d
        by (auto simp: collectCandidates_def optionalCacheUtxos_def
              split: prod.splits sum.splits)
      have failed: "fst (collectSatoshi h ds p1 st) = Inl e"
        using d by (rule collectSatoshi_failed)
      have "cachedUtxos ?st1 = cachedUtxos st"
        using collectSatoshi_first_cache [of h ds p1 st] unstored by simp
      with c have unseen: "cachedUtxos ?st1 k = None" by simp
      have one: "listingCalls ?st1 = listingCalls st + 1"
        using collectSatoshi_first_cache [of h ds p1 st] listed [OF a c] by simp
      have "listingCalls (snd (collectSatoshi h ds p2 ?st1)) = listingCalls ?st1 + 1"
        using collectSatoshi_first_cache [of h ds p2 ?st1] listed [OF b unseen] by simp
      with one have two: "listingCalls (snd (collectSatoshi h ds p2 ?st1)) = listingCalls st + 2"
        by simp
      from failed unseen one two show ?thesis by (intro conjI)
    qed
  qed
  have interleaved: "(\<forall>t\<in>set (tasks c). \<exists>p. t = Called p \<and> internalCacheKey p = Some k)
      \<and> inFlight c = Map.empty \<and> cachedUtxos (shared c) k = None \<and> failedFetches c = 0
    \<longrightarrow> listingCalls (shared (run h ds schedule c))
          \<le> listingCalls (shared c) + failedFetches (run h ds schedule c) + 1
        \<and> (failedFetches (run h ds schedule c) = 0
             \<and> (\<exists>t\<in>set (tasks (run h ds schedule c)). \<not> notStarted t)
           \<longrightarrow> listingCalls (shared (run h ds schedule c)) = listingCalls (shared c) + 1)
        \<and> (\<forall>t\<in>set (tasks (run h ds schedule c)). \<forall>got. received t = Some got
             \<longrightarrow> cachedUtxos (shared (run h ds schedule c)) k = Some got)
        \<and> listingCalls (shared (run h ds schedule c))
            = listingCalls (shared c) + failedFetches (run h ds schedule c)
              + (if inFlight (run h ds schedule c) k \<noteq> None
                    \<or> cachedUtxos (shared (run h ds schedule c)) k \<noteq> None then 1 else 0)
        \<and> (\<forall>i. i < length (tasks (run h ds schedule c))
                 \<and> notStarted (tasks (run h ds schedule c) ! i)
                 \<and> inFlight (run h ds schedule c) k = None
                 \<and> cachedUtxos (shared (run h ds schedule c)) k = None
             \<longrightarrow> listingCalls (shared (step h ds (Start i) (run h ds schedule c)))
                   = listingCalls (shared (run h ds schedule c)) + 1)
        \<and> (\<forall>addr params failure.
               inFlight (run h ds schedule c) k = Some (addr, params)
               \<and> fst (resumeGetUtxos h ds addr params (remote (shared (run h ds schedule c))))
                   = Inl failure
             \<longrightarrow> cachedUtxos (shared (step h ds (Settle k) (run h ds schedule c))) k = None
                 \<and> inFlight (step h ds (Settle k) (run h ds schedule c)) k = None
                 \<and> failedFetches (step h ds (Settle k) (run h ds schedule c))
                     = Suc (failedFetches (run h ds schedule c)))"
  proof (rule impI)
    assume hyp: "(\<forall>t\<in>set (tasks c). \<exists>p. t = Called p \<and> internalCacheKey p = Some k)
      \<and> inFlight c = Map.empty \<and> cachedUtxos (shared c) k = None \<and> failedFetches c = 0"
    then have a: "\<forall>t\<in>set (tasks c). \<exists>p. t = Called p \<and> internalCacheKey p = Some k"
      and b: "inFlight c = Map.empty" and c: "cachedUtxos (shared c) k = None"
      and d: "failedFetches c = 0"
      by simp_all
    note old = run_single_flight [OF a b c d refl, of h ds schedule]
    let ?c' = "run h ds schedule c"
    have inv: "coalesced k (listingCalls (shared c)) ?c'"
      using a b c d by (intro coalesced_run coalesced_initial)
    note ok = coalescedD(1) [OF inv] and excl = coalescedD(3) [OF inv]
    note exact = coalescedD(4) [OF inv]
    have started: "listingCalls (shared (step h ds (Start i) ?c')) = listingCalls (shared ?c') + 1"
      if i: "i < length (tasks ?c')" and ns: "notStarted (tasks ?c' ! i)"
        and nf: "inFlight ?c' k = None" and un: "cachedUtxos (shared ?c') k = None" for i
    proof -
      from ns obtain p where p: "tasks ?c' ! i = Called p"
        by (cases "tasks ?c' ! i") (simp_all add: notStarted_def)
      with i have "Called p \<in> set (tasks ?c')" by (metis nth_mem)
      with ok have "taskOk k ?c' (Called p)" by blast
      then have key: "internalCacheKey p = Some k" by (simp add: taskOk_def)
      from i p key nf un show ?thesis
        by (simp add: start_def sendListing_def sendGetBtcUtxos_def listingCalls_def isListing_def)
    qed
    then have again: "\<forall>i. i < length (tasks (run h ds schedule c))
                 \<and> notStarted (tasks (run h ds schedule c) ! i)
                 \<and> inFlight (run h ds schedule c) k = None
                 \<and> cachedUtxos (shared (run h ds schedule c)) k = None
             \<longrightarrow> listingCalls (shared (step h ds (Start i) (run h ds schedule c)))
                   = listingCalls (shared (run h ds schedule c)) + 1"
      by blast
    have failing: "cachedUtxos (shared (step h ds (Settle k) ?c')) k = None
             \<and> inFlight (step h ds (Settle k) ?c') k = None
             \<and> failedFetches (step h ds (Settle k) ?c') = Suc (failedFetches ?c')"
      if fl: "inFlight ?c' k = Some (addr, params)"
        and fail: "fst (resumeGetUtxos h ds addr params (remote (shared ?c'))) = Inl failure"
      for addr params failure
    proof -
      from fl excl have "cachedUtxos (shared ?c') k = None" by simp
      with fl fail show ?thesis
        by (cases "resumeGetUtxos h ds addr params (remote (shared ?c'))")
           (auto simp: settle_def)
    qed
    then have dropped: "\<forall>addr params failure.
               inFlight (run h ds schedule c) k = Some (addr, params)
               \<and> fst (resumeGetUtxos h ds addr params (remote (shared (run h ds schedule c))))
                   = Inl failure
             \<longrightarrow> cachedUtxos (shared (step h ds (Settle k) (run h ds schedule c))) k = None
                 \<and> inFlight (step h ds (Settle k) (run h ds schedule c)) k = None
                 \<and> failedFetches (step h ds (Settle k) (run h ds schedule c))
                     = Suc (failedFetches (run h ds schedule c))"
      by blast
    show "listingCalls (shared (run h ds schedule c))
          \<le> listingCalls (shared c) + failedFetches (run h ds schedule c) + 1
        \<and> (failedFetches (run h ds schedule c) = 0
             \<and> (\<exists>t\<in>set (tasks (run h ds schedule c)). \<not> notStarted t)
           \<longrightarrow> listingCalls (shared (run h ds schedule c)) = listingCalls (shared c) + 1)
        \<and> (\<forall>t\<in>set (tasks (run h ds schedule c)). \<forall>got. received t = Some got
             \<longrightarrow> cachedUtxos (shared (run h ds schedule c)) k = Some got)
        \<and> listingCalls (shared (run h ds schedule c))
            = listingCalls (shared c) + failedFetches (run h ds schedule c)
              + (if inFlight (run h ds schedule c) k \<noteq> None
                    \<or> cachedUtxos (shared (run h ds schedule c)) k \<noteq> None then 1 else 0)
        \<and> (\<forall>i. i < length (tasks (run h ds schedule c))
                 \<and> notStarted (tasks (run h ds schedule c) ! i)
                 \<and> inFlight (run h ds schedule c) k = None
                 \<and> cachedUtxos (shared (run h ds schedule c)) k = None
             \<longrightarrow> listingCalls (shared (step h ds (Start i) (run h ds schedule c)))
                   = listingCalls (shared (run h ds schedule c)) + 1)
        \<and> (\<forall>addr params failure.
               inFlight (run h ds schedule c) k = Some (addr, params)
               \<and> fst (resumeGetUtxos h ds addr params (remote (shared (run h ds schedule c))))
                   = Inl failure
             \<longrightarrow> cachedUtxos (shared (step h ds (Settle k) (run h ds schedule c))) k = None
                 \<and> inFlight (step h ds (Settle k) (run h ds schedule c)) k = None
                 \<and> failedFetches (step h ds (Settle k) (run h ds schedule c))
                     = Suc (failedFetches (run h ds schedule c)))"
      by (intro conjI old [THEN conjunct1] old [THEN conjunct2, THEN conjunct1]
          old [THEN conjunct2, THEN conjunct2] exact again dropped)
  qed
  show ?thesis by (intro conjI sequential retried interleaved)
qed

text \<open>
  Two sequential calls, and two calls that both start before the fetch settles, on the
  example service; on the service whose first listing fails, two sequential calls, a
  third one after them, which finds the candidates of the second, a call that starts
  after the failed fetch has settled, and the failed fetch itself.
\<close>

theorem collectSatoshi_single_flight_witness:
  "listingCalls (snd (collectSatoshi exHelpers exSource (keyedProps 7500)
       (snd (collectSatoshi exHelpers exSource (keyedProps 6000) st0)))) = 1
   \<and> tasks (run exHelpers exSource [Start 0, Start 1, Settle ''k'', Finish 1, Finish 0] twoCalls)
     = [Returned (Some [exUtxo ''c'' 0 2000, exUtxo ''a'' 0 5000, exUtxo ''b'' 1 3000])
          (Inr \<lparr>utxos = [exUtxo ''c'' 0 2000, exUtxo ''a'' 0 5000],
                 satoshi = 7000, exceedSatoshi = 1000\<rparr>),
        Returned (Some [exUtxo ''c'' 0 2000, exUtxo ''a'' 0 5000, exUtxo ''b'' 1 3000])
          (Inr \<lparr>utxos = [exUtxo ''c'' 0 2000, exUtxo ''a'' 0 5000, exUtxo ''b'' 1 3000],
                 satoshi = 10000, exceedSatoshi = 2500\<rparr>)]
   \<and> listingCalls (shared (run exHelpers exSource
        [Start 0, Start 1, Settle ''k'', Finish 1, Finish 0] twoCalls)) = 1
   \<and> fst (collectSatoshi exHelpers flakySource (keyedProps 6000) flakySt0) = Inl (Thrown ''timeout'')
   \<and> cachedUtxos (snd (collectSatoshi exHelpers flakySource (keyedProps 6000) flakySt0)) ''k'' = None
   \<and> listingCalls (snd (collectSatoshi exHelpers flakySource (keyedProps 6000)
        (snd (collectSatoshi exHelpers flakySource (keyedProps 6000) flakySt0)))) = 2
   \<and> listingCalls (shared (step exHelpers flakySource (Start 1)
        (run exHelpers flakySource [Start 0, Settle ''k''] twoCallsFlaky))) = 2
   \<and> cachedUtxos (shared (step exHelpers flakySource (Settle ''k'')
        (run exHelpers flakySource [Start 0] twoCallsFlaky))) ''k'' = None
   \<and> listingCalls (snd (collectSatoshi exHelpers flakySource (keyedProps 6000)
        (snd (collectSatoshi exHelpers flakySource (keyedProps 6000)
          (snd (collectSatoshi exHelpers flakySource (keyedProps 6000) flakySt0)))))) = 2"
proof -
  let ?cands = "[exUtxo ''c'' 0 2000, exUtxo ''a'' 0 5000, exUtxo ''b'' 1 3000]"
  let ?schedule = "[Start 0, Start 1, Settle ''k'', Finish 1, Finish 0]"
  note inst = collectSatoshi_single_flight
    [where ?p1.0 = "keyedProps 6000" and k = "''k''" and ?p2.0 = "keyedProps 7500" and st = st0
       and h = exHelpers and ds = exSource and v = ?cands and c = twoCalls and schedule = ?schedule]
  have key: "internalCacheKey (keyedProps t) = Some ''k''" for t
    by (simp add: keyedProps_def)
  have fresh: "cachedUtxos st0 ''k'' = None" "listingCalls st0 = 0"
    by (simp_all add: st0_def listingCalls_def r0_def)
  have fetch: "fst (collectCandidates exHelpers exSource (keyedProps 6000) st0) = Inr ?cands"
    by (simp add: collectCandidates_def optionalCacheUtxos_def getUtxos_exSource
        keyedProps_def exProps_def st0_def)
  from inst [THEN conjunct1] key fresh fetch
  have one: "listingCalls (snd (collectSatoshi exHelpers exSource (keyedProps 7500)
       (snd (collectSatoshi exHelpers exSource (keyedProps 6000) st0)))) = 1"
    by simp
  have init: "(\<forall>t\<in>set (tasks twoCalls). \<exists>p. t = Called p \<and> internalCacheKey p = Some ''k'')
      \<and> inFlight twoCalls = Map.empty \<and> cachedUtxos (shared twoCalls) ''k'' = None
      \<and> failedFetches twoCalls = 0"
    using key fresh by (simp add: twoCalls_def)
  have started: "\<exists>t\<in>set (tasks (run exHelpers exSource ?schedule twoCalls)). \<not> notStarted t"
    unfolding tasks_run_twoCalls by (simp add: notStarted_def)
  have none_failed: "failedFetches (run exHelpers exSource ?schedule twoCalls) = 0"
    by (rule tasks_run_twoCalls)
  have "listingCalls (shared twoCalls) = 0" using fresh by (simp add: twoCalls_def)
  with inst [THEN conjunct2, THEN conjunct2, THEN mp, OF init, THEN conjunct2, THEN conjunct1,
      THEN mp, OF conjI, OF none_failed started]
  have both: "listingCalls (shared (run exHelpers exSource ?schedule twoCalls)) = 1"
    by (simp only: add_0 One_nat_def)
  note flaky = collectSatoshi_single_flight
    [where ?p1.0 = "keyedProps 6000" and k = "''k''" and ?p2.0 = "keyedProps 6000" and st = flakySt0
       and h = exHelpers and ds = flakySource and e = "Thrown ''timeout''" and c = twoCallsFlaky]
  have unseen: "cachedUtxos flakySt0 ''k'' = None" "listingCalls flakySt0 = 0"
    by (simp_all add: flakySt0_def listingCalls_def)
  have fails: "fst (collectCandidates exHelpers flakySource (keyedProps 6000) flakySt0)
      = Inl (Thrown ''timeout'')"
    by (simp add: collectCandidates_def optionalCacheUtxos_def getUtxos_flakySource
        keyedProps_def exProps_def flakySt0_def)
  from flaky [THEN conjunct2, THEN conjunct1] key unseen fails
  have retry: "fst (collectSatoshi exHelpers flakySource (keyedProps 6000) flakySt0)
        = Inl (Thrown ''timeout'')
     \<and> cachedUtxos (snd (collectSatoshi exHelpers flakySource (keyedProps 6000) flakySt0)) ''k'' = None
     \<and> listingCalls (snd (collectSatoshi exHelpers flakySource (keyedProps 6000)
          (snd (collectSatoshi exHelpers flakySource (keyedProps 6000) flakySt0)))) = 2"
    by simp
  have init': "(\<forall>t\<in>set (tasks twoCallsFlaky). \<exists>p. t = Called p \<and> internalCacheKey p = Some ''k'')
      \<and> inFlight twoCallsFlaky = Map.empty \<and> cachedUtxos (shared twoCallsFlaky) ''k'' = None
      \<and> failedFetches twoCallsFlaky = 0"
    using key unseen by (simp add: twoCallsFlaky_def)
  note after = flaky [where schedule = "[Start 0, Settle ''k'']", THEN conjunct2, THEN conjunct2,
      THEN mp, OF init']
  have run_twoCallsFlaky_failed:
    "length (tasks (run exHelpers flakySource [Start 0, Settle ''k''] twoCallsFlaky)) = 2"
    "tasks (run exHelpers flakySource [Start 0, Settle ''k''] twoCallsFlaky) ! 1 = Called (keyedProps 6000)"
    "inFlight (run exHelpers flakySource [Start 0, Settle ''k''] twoCallsFlaky) ''k'' = None"
    "cachedUtxos (shared (run exHelpers flakySource [Start 0, Settle ''k''] twoCallsFlaky)) ''k'' = None"
    "listingCalls (shared (run exHelpers flakySource [Start 0, Settle ''k''] twoCallsFlaky)) = 1"
    "failedFetches (run exHelpers flakySource [Start 0, Settle ''k''] twoCallsFlaky) = 1"
    by (simp_all add: twoCallsFlaky_def start_def settle_def deliver_def sendListing_def
        sendGetBtcUtxos_def resumeGetUtxos_flakySource flakySt0_def keyedProps_fields
        listingCalls_def isListing_def)
  have run_twoCallsFlaky_started:
    "inFlight (run exHelpers flakySource [Start 0] twoCallsFlaky) ''k''
       = Some (''bc1q'', listingParams (keyedProps 6000))"
    "fst (resumeGetUtxos exHelpers flakySource ''bc1q'' (listingParams (keyedProps 6000))
            (remote (shared (run exHelpers flakySource [Start 0] twoCallsFlaky))))
       = Inl (Thrown ''timeout'')"
    by (simp_all add: twoCallsFlaky_def start_def sendListing_def
        sendGetBtcUtxos_def resumeGetUtxos_flakySource flakySt0_def keyedProps_fields)
  have enabled: "1 < length (tasks (run exHelpers flakySource [Start 0, Settle ''k''] twoCallsFlaky))
      \<and> notStarted (tasks (run exHelpers flakySource [Start 0, Settle ''k''] twoCallsFlaky) ! 1)
      \<and> inFlight (run exHelpers flakySource [Start 0, Settle ''k''] twoCallsFlaky) ''k'' = None
      \<and> cachedUtxos (shared (run exHelpers flakySource [Start 0, Settle ''k''] twoCallsFlaky)) ''k'' = None"
    by (simp only: run_twoCallsFlaky_failed notStarted_def task.case) simp
  from after [THEN conjunct2, THEN conjunct2, THEN conjunct2, THEN conjunct2, THEN conjunct1,
      THEN spec, THEN mp, OF enabled]
  have again: "listingCalls (shared (step exHelpers flakySource (Start 1)
        (run exHelpers flakySource [Start 0, Settle ''k''] twoCallsFlaky))) = 2"
    by (simp only: run_twoCallsFlaky_failed)
  note before = flaky [where schedule = "[Start 0]", THEN conjunct2, THEN conjunct2,
      THEN mp, OF init']
  from before [THEN conjunct2, THEN conjunct2, THEN conjunct2, THEN conjunct2, THEN conjunct2,
      THEN spec, THEN spec, THEN spec, THEN mp, OF conjI, OF run_twoCallsFlaky_started]
  have dropped: "cachedUtxos (shared (step exHelpers flakySource (Settle ''k'')
        (run exHelpers flakySource [Start 0] twoCallsFlaky))) ''k'' = None"
    by (rule conjunct1)
  let ?st1 = "flakySt0\<lparr>remote := \<lparr>world = Suc 0,
      calls = [GetBtcUtxos ''bc1q'' (listingParams (keyedProps 6000))]\<rparr>\<rparr>"
  have first: "collectSatoshi exHelpers flakySource (keyedProps 6000) flakySt0
      = (Inl (Thrown ''timeout''), ?st1)"
    by (simp add: collectSatoshi_selectFrom collectCandidates_def optionalCacheUtxos_def
        getUtxos_flakySource keyedProps_def exProps_def flakySt0_def listingParams_def)
  have unstored: "cachedUtxos ?st1 ''k'' = None" "listingCalls ?st1 = 1"
    by (simp_all add: flakySt0_def listingCalls_def isListing_def)
  have refetch: "fst (collectCandidates exHelpers flakySource (keyedProps 6000) ?st1) = Inr ?cands"
    by (simp add: collectCandidates_def optionalCacheUtxos_def
        getUtxos_flakySource keyedProps_def exProps_def flakySt0_def listingParams_def)
  note later = collectSatoshi_single_flight
    [where ?p1.0 = "keyedProps 6000" and k = "''k''" and ?p2.0 = "keyedProps 6000" and st = ?st1
       and h = exHelpers and ds = flakySource and v = ?cands]
  from later [THEN conjunct1] key unstored refetch
  have "listingCalls (snd (collectSatoshi exHelpers flakySource (keyedProps 6000)
        (snd (collectSatoshi exHelpers flakySource (keyedProps 6000) ?st1)))) = 2"
    by simp
  then have memo: "listingCalls (snd (collectSatoshi exHelpers flakySource (keyedProps 6000)
        (snd (collectSatoshi exHelpers flakySource (keyedProps 6000)
          (snd (collectSatoshi exHelpers flakySource (keyedProps 6000) flakySt0)))))) = 2"
    by (simp only: first snd_conv)
  from one tasks_run_twoCalls(1) both retry again dropped memo show ?thesis
    by (simp only: simp_thms)
qed

end